theory Spec2Isabelle
  imports Complex_Main "HOL-Library.Word" "HOL-Library.Signed_Division"
begin

section \<open>Spectrum analyser for the AD9361 (backup241018.c)\<close>

text \<open>
  The program streams I/Q samples through libiio, windows the first \<open>fft_size\<close> samples of
  every received block, runs a forward FFT (FFTW3) and writes a log-magnitude spectrum; in the
  same loop it fills the outgoing block with a two-tone waveform.

  Conventions of the embedding:
  \<^item> \<open>int16_t\<close> and \<open>short\<close> are \<open>16 word\<close>, read with \<open>sint\<close>; \<open>size_t\<close> and \<open>ssize_t\<close> are
    \<open>64 word\<close> (LP64), the latter read with \<open>sint\<close>; \<open>int\<close> loop counters, which stay far
    below their range, are \<open>nat\<close>;
  \<^item> \<open>double\<close> and \<open>double complex\<close> are the real and complex numbers: the rounding of
    \<open>double\<close> arithmetic is not modelled, and \<open>M_PI\<close> is \<open>pi\<close>. The one place where the C
    library leaves the reals, \<open>log10 (0) = -inf\<close>, is written out with the type \<open>dval\<close>,
    since \<open>log 10 0 = 0\<close> in HOL;
  \<^item> the two \<open>float\<close> variables of the program, \<open>freq1\<close> and \<open>freq2\<close>, hold their values
    rounded to 24 significant bits (\<open>to_float\<close>);
  \<^item> the calls into libiio and the delivery of SIGINT are the environment: their results are
    read from records (\<open>init_env\<close>, \<open>cycle_env\<close>), one \<open>cycle_env\<close> per iteration of the
    streaming loop;
  \<^item> \<open>exit\<close> and \<open>abort\<close> end the run with an \<open>outcome\<close>; every library call that acquires or
    releases a resource is appended to a trace of events.
\<close>

subsection \<open>Numbers\<close>

type_synonym int16_t = "16 word"
type_synonym size_t = "64 word"
type_synonym ssize_t = "64 word"

text \<open>An I/Q pair as it lies in an IIO buffer: \<open>((int16_t*)p_dat)[0]\<close> and \<open>[1]\<close>.\<close>

type_synonym sample = "int16_t \<times> int16_t"

text \<open>The values a \<open>double\<close> expression of the program can take beside the reals.\<close>

datatype dval = NegInf | Finite real | PosInf | NaN

text \<open>\<open>log10\<close> of the C library: a pole at zero, a domain error below.\<close>

definition c_log10 :: "real \<Rightarrow> dval" where
  "c_log10 x = (if x < 0 then NaN else if x = 0 then NegInf else Finite (log 10 x))"

text \<open>Multiplication of a finite constant with a \<open>double\<close>.\<close>

fun dval_scale :: "real \<Rightarrow> dval \<Rightarrow> dval" where
  "dval_scale c (Finite x) = Finite (c * x)"
| "dval_scale c NegInf = (if 0 < c then NegInf else if c < 0 then PosInf else NaN)"
| "dval_scale c PosInf = (if 0 < c then PosInf else if c < 0 then NegInf else NaN)"
| "dval_scale c NaN = NaN"

text \<open>Conversion of a floating value to an integer type truncates towards zero.\<close>

definition c_trunc :: "real \<Rightarrow> int" where
  "c_trunc x = (if 0 \<le> x then \<lfloor>x\<rfloor> else \<lceil>x\<rceil>)"

text \<open>
  The conversion of a \<open>double\<close> to \<open>float\<close>: the nearest number with 24 significant bits,
  ties to the even one. The range of the exponent (overflow, subnormal numbers) is not
  modelled; the two values the program converts lie between \<open>2 ^ 24\<close> and \<open>2 ^ 26\<close>.
\<close>

definition round_half_even :: "real \<Rightarrow> int" where
  "round_half_even q =
     (let f = \<lfloor>q\<rfloor>; d = q - of_int f
      in if d < 1 / 2 then f else if 1 / 2 < d then f + 1 else if even f then f else f + 1)"

definition to_float :: "real \<Rightarrow> real" where
  "to_float x =
     (if x = 0 then 0
      else let e = \<lfloor>log 2 \<bar>x\<bar>\<rfloor>; ulp = 2 powr (of_int e - 23)
           in of_int (round_half_even (x / ulp)) * ulp)"

text \<open>\<open>short ipart = <double>\<close>: truncation, then the 16 bits of the result.\<close>

definition to_short :: "real \<Rightarrow> int16_t" where
  "to_short x = word_of_int (c_trunc x)"

text \<open>\<open>#define MHZ(x) ((long long)(x*1000000.0 + .5))\<close> and \<open>GHZ\<close>.\<close>

definition MHZ :: "real \<Rightarrow> int" where
  "MHZ x = c_trunc (x * 1000000.0 + 0.5)"

definition GHZ :: "real \<Rightarrow> int" where
  "GHZ x = c_trunc (x * 1000000000.0 + 0.5)"

definition FREQ1 :: int where
  "FREQ1 = MHZ 8"

definition FREQ2 :: int where
  "FREQ2 = MHZ 4"

subsection \<open>Streaming configuration\<close>

datatype iodev = RX | TX

record stream_cfg =
  bw_hz :: int
  fs_hz :: int
  lo_hz :: int
  rfport :: string

definition rxcfg :: stream_cfg where
  "rxcfg = \<lparr>bw_hz = MHZ 19.366, fs_hz = MHZ 30.72, lo_hz = GHZ 1, rfport = ''A_BALANCED''\<rparr>"

definition txcfg :: stream_cfg where
  "txcfg = \<lparr>bw_hz = MHZ 19.365, fs_hz = MHZ 30.72, lo_hz = GHZ 1, rfport = ''A''\<rparr>"

definition buffer_size :: nat where
  "buffer_size = 1024 * 1024"

definition fft_size :: nat where
  "fft_size = 1024"

subsection \<open>Window\<close>

text \<open>
  \<open>win_hanning (j, n)\<close>. For \<open>n = 1\<close> the C code divides by zero (\<open>a\<close> is infinite, the result
  not a number); the reals of HOL give \<open>a = 0\<close> there, so the function is used for \<open>n \<ge> 2\<close> only.
\<close>

definition win_hanning :: "int \<Rightarrow> int \<Rightarrow> real" where
  "win_hanning j n =
     (let a = 2.0 * pi / real_of_int (n - 1);
          w = 0.5 * (1.0 - cos (a * real_of_int j))
      in w)"

text \<open>\<open>for (cnt = 0; cnt < fft_size; cnt++) win[cnt] = win_hanning(cnt, fft_size);\<close>\<close>

function fill_win :: "nat \<Rightarrow> nat \<Rightarrow> real list \<Rightarrow> real list" where
  "fill_win cnt n win =
     (if cnt < n then fill_win (cnt + 1) n (win[cnt := win_hanning (int cnt) (int n)])
      else win)"
  by pat_completeness auto
termination
  by (relation "measure (\<lambda>(cnt, n, win). n - cnt)") auto

declare fill_win.simps [simp del]

subsection \<open>Analysis block and transform\<close>

text \<open>\<open>(i + I*q)\<close> for two \<open>int16_t\<close> values.\<close>

definition iq :: "sample \<Rightarrow> complex" where
  "iq s = of_int (sint (fst s)) + \<i> * of_int (sint (snd s))"

text \<open>
  The loop over the refilled RX buffer, from \<open>iio_buffer_first\<close> to \<open>iio_buffer_end\<close>: every
  pair is read, and copied into \<open>in\<close> only while \<open>cnt < fft_size\<close>. The state is
  \<open>(cnt, in)\<close>.
\<close>

fun fill_in :: "real list \<Rightarrow> nat \<Rightarrow> sample list \<Rightarrow> nat \<times> complex list \<Rightarrow> nat \<times> complex list" where
  "fill_in win n [] (cnt, inb) = (cnt, inb)"
| "fill_in win n (s # rest) (cnt, inb) =
     (if cnt < n
      then fill_in win n rest (cnt + 1, inb[cnt := iq s * of_real (win ! cnt)])
      else fill_in win n rest (cnt, inb))"

text \<open>
  \<open>fftw_execute\<close> on a plan made by \<open>fftw_plan_dft_1d (n, in, out, FFTW_FORWARD, _)\<close>. FFTW is
  an external library; this is the transform its manual defines, the unnormalised forward
  DFT \<open>out[k] = \<Sum>j<n. in[j] * exp (-2\<pi>\<i>jk/n)\<close>.
\<close>

definition fftw_forward :: "complex list \<Rightarrow> complex list" where
  "fftw_forward xs =
     (let n = length xs
      in map (\<lambda>k. sum_list (map (\<lambda>j. xs ! j * cis (- (2 * pi * real j * real k / real n))) [0..<n]))
           [0..<n])"

text \<open>
  The lines written to fft.csv:
  \<open>fprintf (fp3, "%lf %lf\n", ((double)cnt/(double)fft_size)*(double)rxcfg.fs_hz,
  20*log10 (cabs (out[cnt])))\<close>.
\<close>

definition spectrum_lines :: "nat \<Rightarrow> int \<Rightarrow> complex list \<Rightarrow> (real \<times> dval) list" where
  "spectrum_lines n fs outb =
     map (\<lambda>cnt. (real cnt / real n * real_of_int fs, dval_scale 20 (c_log10 (cmod (outb ! cnt)))))
       [0..<n]"

subsection \<open>Waveform\<close>

text \<open>
  The body of the TX loop for the time \<open>i\<close>: the two \<open>short\<close> values written to the buffer.
  \<open>float freq1 = 2.0 * M_PI * FREQ1\<close> and \<open>float freq2 = 2.0 * M_PI * FREQ2\<close> are set in every
  iteration of the outer loop, to the same values.
\<close>

definition synth :: "real \<Rightarrow> sample" where
  "synth i =
     (let freq1 = to_float (2.0 * pi * real_of_int FREQ1);
          freq2 = to_float (2.0 * pi * real_of_int FREQ2);
          ampl = 128;
          ipart = to_short (ampl * cos (freq1 * i) + ampl * cos (freq2 * i));
          qpart = to_short (ampl * sin (freq1 * i) + ampl * sin (freq2 * i))
      in (ipart, qpart))"

text \<open>
  The TX loop over the \<open>slots\<close> pairs of the outgoing buffer, started at time \<open>i\<close>; each
  entry is the time used and the pair written, then \<open>i += 1. / txcfg.fs_hz\<close>.
\<close>

fun tx_fill :: "nat \<Rightarrow> real \<Rightarrow> (real \<times> sample) list" where
  "tx_fill 0 i = []"
| "tx_fill (Suc slots) i = (i, synth i) # tx_fill slots (i + 1 / real_of_int (fs_hz txcfg))"

subsection \<open>Process state, events and outcomes\<close>

datatype chan = Rx0_i | Rx0_q | Tx0_i | Tx0_q

datatype cfile = Fp1 | Fp2 | Fp3

datatype fftbuf = Fft_in | Fft_out

text \<open>The library calls that acquire, use or release a resource.\<close>

datatype event =
    Create_context
  | Channel_enable chan
  | Create_buffer iodev
  | Fftw_malloc fftbuf
  | Fftw_plan
  | Malloc_win
  | Fopen cfile
  | Buffer_push
  | Buffer_refill
  | Fftw_execute
  | Fclose cfile
  | Fftw_destroy_plan
  | Fftw_free fftbuf
  | Buffer_destroy iodev
  | Channel_disable chan
  | Context_destroy

text \<open>
  How the process ends: \<open>exit (status)\<close>, \<open>abort ()\<close> from the \<open>ASSERT\<close> macro, or the trap of
  an integer division by zero.
\<close>

datatype outcome = Exit int | Abort | Sigfpe

text \<open>The place in the source where the run ended.\<close>

datatype cause =
    Cancelled
  | Push_error
  | Refill_error
  | Attr_write_error
  | Buffer_create_error
  | Assert_failed
  | Div_by_zero

text \<open>
  The static handles (\<open>True\<close>: not \<open>NULL\<close>), the flag \<open>stop\<close>, and the variables of \<open>main\<close>.
  \<open>tx_block\<close> is the outgoing block as last written, with the time used for each pair;
  \<open>synth_times\<close> collects those times over the whole run.
\<close>

record pstate =
  ctx :: bool
  rx0_i :: bool
  rx0_q :: bool
  tx0_i :: bool
  tx0_q :: bool
  rxbuf :: bool
  txbuf :: bool
  stop :: bool
  nrx :: size_t
  ntx :: size_t
  win :: "real list"
  fft_in :: "complex list"
  fft_out :: "complex list"
  fft_csv :: "(real \<times> dval) list"
  tx_block :: "(real \<times> sample) list"
  synth_times :: "real list"
  events :: "event list"

datatype 'a step = Halt cause outcome pstate | Go 'a pstate

datatype result = Terminated cause outcome pstate | Streaming pstate

definition andthen :: "'a step \<Rightarrow> ('a \<Rightarrow> pstate \<Rightarrow> 'b step) \<Rightarrow> 'b step" where
  "andthen m f = (case m of Halt c oc st \<Rightarrow> Halt c oc st | Go x st \<Rightarrow> f x st)"

definition emit :: "event list \<Rightarrow> pstate \<Rightarrow> pstate" where
  "emit evs st = st\<lparr>events := events st @ evs\<rparr>"

subsection \<open>Shutdown, assertions, attribute writes\<close>

text \<open>\<open>shutdown ()\<close>: destroys the buffers, disables the channels, destroys the context, \<open>exit (0)\<close>.\<close>

definition shutdown_events :: "pstate \<Rightarrow> event list" where
  "shutdown_events st =
     (if rxbuf st then [Buffer_destroy RX] else []) @
     (if txbuf st then [Buffer_destroy TX] else []) @
     (if rx0_i st then [Channel_disable Rx0_i] else []) @
     (if rx0_q st then [Channel_disable Rx0_q] else []) @
     (if tx0_i st then [Channel_disable Tx0_i] else []) @
     (if tx0_q st then [Channel_disable Tx0_q] else []) @
     (if ctx st then [Context_destroy] else [])"

definition shutdown :: "pstate \<Rightarrow> outcome \<times> pstate" where
  "shutdown st = (Exit 0, emit (shutdown_events st) st)"

definition do_shutdown :: "cause \<Rightarrow> pstate \<Rightarrow> 'a step" where
  "do_shutdown c st = (case shutdown st of (oc, st') \<Rightarrow> Halt c oc st')"

text \<open>\<open>handle_sig\<close>, the handler of SIGINT.\<close>

definition handle_sig :: "pstate \<Rightarrow> pstate" where
  "handle_sig st = st\<lparr>stop := True\<rparr>"

text \<open>\<open>ASSERT (expr)\<close>: \<open>abort ()\<close> when the expression is false.\<close>

definition ASSERT :: "bool \<Rightarrow> pstate \<Rightarrow> unit step" where
  "ASSERT expr st = (if \<not> expr then Halt Assert_failed Abort st else Go () st)"

text \<open>\<open>errchk (v, what)\<close>: a negative return of an attribute write calls \<open>shutdown ()\<close>.\<close>

definition errchk :: "int \<Rightarrow> pstate \<Rightarrow> unit step" where
  "errchk v st = (if v < 0 then do_shutdown Attr_write_error st else Go () st)"

subsection \<open>Initialisation\<close>

text \<open>What libiio answers while one direction is configured.\<close>

record cfg_env =
  phy_chan_found :: bool
  wr_rf_port_select :: int
  wr_rf_bandwidth :: int
  wr_sampling_frequency :: int
  lo_chan_found :: bool
  wr_frequency :: int

text \<open>
  What the environment answers before the loop. \<open>rx_sample_size\<close> and \<open>tx_sample_size\<close>
  are the returns of \<open>iio_device_get_sample_size\<close>, which the loop asks for in every
  iteration; \<open>win_garbage\<close>, \<open>in_garbage\<close> and \<open>out_garbage\<close> are the contents of the
  freshly allocated arrays; \<open>sigint_at_init\<close> says whether SIGINT arrived between the
  installation of the handler and the first test of \<open>stop\<close>.
\<close>

record init_env =
  context_created :: bool
  devices_count :: nat
  tx_dev_found :: bool
  rx_dev_found :: bool
  phy_dev_found :: bool
  rx_cfg_env :: cfg_env
  tx_cfg_env :: cfg_env
  rx0_i_found :: bool
  rx0_q_found :: bool
  tx0_i_found :: bool
  tx0_q_found :: bool
  rxbuf_created :: bool
  txbuf_created :: bool
  rx_sample_size :: ssize_t
  tx_sample_size :: ssize_t
  win_garbage :: "nat \<Rightarrow> real"
  in_garbage :: "nat \<Rightarrow> complex"
  out_garbage :: "nat \<Rightarrow> complex"
  sigint_at_init :: bool

text \<open>
  \<open>cfg_ad9361_streaming_ch\<close>. \<open>get_phy_chan\<close> and \<open>get_lo_chan\<close> look the phy device up with
  \<open>get_ad9361_phy\<close>, which asserts that it exists.
\<close>

definition cfg_ad9361_streaming_ch :: "bool \<Rightarrow> cfg_env \<Rightarrow> pstate \<Rightarrow> bool step" where
  "cfg_ad9361_streaming_ch phy e st =
     andthen (ASSERT phy st) (\<lambda>_ st.
       if \<not> phy_chan_found e then Go False st
       else
         andthen (errchk (wr_rf_port_select e) st) (\<lambda>_ st.
         andthen (errchk (wr_rf_bandwidth e) st) (\<lambda>_ st.
         andthen (errchk (wr_sampling_frequency e) st) (\<lambda>_ st.
         andthen (ASSERT phy st) (\<lambda>_ st.
           if \<not> lo_chan_found e then Go False st
           else andthen (errchk (wr_frequency e) st) (\<lambda>_ st. Go True st))))))"

definition initial_state :: pstate where
  "initial_state =
     \<lparr>ctx = False, rx0_i = False, rx0_q = False, tx0_i = False, tx0_q = False,
      rxbuf = False, txbuf = False, stop = False, nrx = 0, ntx = 0,
      win = [], fft_in = [], fft_out = [], fft_csv = [], tx_block = [], synth_times = [],
      events = []\<rparr>"

definition acquire_context :: "init_env \<Rightarrow> pstate \<Rightarrow> unit step" where
  "acquire_context ie st =
     (let st1 = emit (if context_created ie then [Create_context] else [])
                  (st\<lparr>ctx := context_created ie\<rparr>)
      in andthen (ASSERT (ctx st1) st1) (\<lambda>_ st.
         andthen (ASSERT (0 < devices_count ie) st) (\<lambda>_ st.
         andthen (ASSERT (tx_dev_found ie) st) (\<lambda>_ st.
                  ASSERT (rx_dev_found ie) st))))"

definition configure_streaming :: "init_env \<Rightarrow> pstate \<Rightarrow> unit step" where
  "configure_streaming ie st =
     andthen (cfg_ad9361_streaming_ch (phy_dev_found ie) (rx_cfg_env ie) st) (\<lambda>ok st.
     andthen (ASSERT ok st) (\<lambda>_ st.
     andthen (cfg_ad9361_streaming_ch (phy_dev_found ie) (tx_cfg_env ie) st) (\<lambda>ok st.
              ASSERT ok st)))"

definition init_channels :: "init_env \<Rightarrow> pstate \<Rightarrow> unit step" where
  "init_channels ie st =
     andthen (ASSERT (rx0_i_found ie) (st\<lparr>rx0_i := rx0_i_found ie\<rparr>)) (\<lambda>_ st.
     andthen (ASSERT (rx0_q_found ie) (st\<lparr>rx0_q := rx0_q_found ie\<rparr>)) (\<lambda>_ st.
     andthen (ASSERT (tx0_i_found ie) (st\<lparr>tx0_i := tx0_i_found ie\<rparr>)) (\<lambda>_ st.
     andthen (ASSERT (tx0_q_found ie) (st\<lparr>tx0_q := tx0_q_found ie\<rparr>)) (\<lambda>_ st.
       Go () (emit [Channel_enable Rx0_i, Channel_enable Rx0_q,
                    Channel_enable Tx0_i, Channel_enable Tx0_q] st)))))"

definition create_buffers :: "init_env \<Rightarrow> pstate \<Rightarrow> unit step" where
  "create_buffers ie st =
     (let st1 = emit (if rxbuf_created ie then [Create_buffer RX] else [])
                  (st\<lparr>rxbuf := rxbuf_created ie\<rparr>)
      in if \<not> rxbuf st1 then do_shutdown Buffer_create_error st1
         else
           let st2 = emit (if txbuf_created ie then [Create_buffer TX] else [])
                       (st1\<lparr>txbuf := txbuf_created ie\<rparr>)
           in if \<not> txbuf st2 then do_shutdown Buffer_create_error st2
              else Go () st2)"

text \<open>
  The arrays of the transform, the plan, and the two files opened before the loop
  (\<open>fopen\<close> is taken to succeed).
\<close>

definition configure_fft :: "init_env \<Rightarrow> pstate \<Rightarrow> unit step" where
  "configure_fft ie st =
     Go () (emit [Fftw_malloc Fft_in, Fftw_malloc Fft_out, Fftw_plan, Malloc_win,
                  Fopen Fp1, Fopen Fp2]
              (st\<lparr>fft_in := map (in_garbage ie) [0..<fft_size],
                  fft_out := map (out_garbage ie) [0..<fft_size],
                  win := map (win_garbage ie) [0..<fft_size]\<rparr>))"

definition main_init :: "init_env \<Rightarrow> unit step" where
  "main_init ie =
     andthen (acquire_context ie initial_state) (\<lambda>_ st.
     andthen (configure_streaming ie st) (\<lambda>_ st.
     andthen (init_channels ie st) (\<lambda>_ st.
     andthen (create_buffers ie st) (\<lambda>_ st.
     andthen (configure_fft ie st) (\<lambda>_ st.
       Go () (if sigint_at_init ie then handle_sig st else st))))))"

subsection \<open>The streaming loop\<close>

text \<open>
  What the environment does during one iteration: the returns of \<open>iio_buffer_push\<close> and
  \<open>iio_buffer_refill\<close>, the pairs between \<open>iio_buffer_first\<close> and \<open>iio_buffer_end\<close> of the RX
  buffer, the number of pairs of the TX buffer, and whether \<open>handle_sig\<close> ran during the
  iteration.
\<close>

record cycle_env =
  push_ret :: ssize_t
  refill_ret :: ssize_t
  rx_block :: "sample list"
  tx_slots :: nat
  sigint :: bool

text \<open>\<open>nrx += nbytes_rx / iio_device_get_sample_size (rx)\<close>: signed division, added to a \<open>size_t\<close>.\<close>

definition count_samples :: "size_t \<Rightarrow> ssize_t \<Rightarrow> ssize_t \<Rightarrow> size_t" where
  "count_samples n nbytes sample_size = n + word_of_int (sint nbytes sdiv sint sample_size)"

text \<open>
  The window is recomputed, the RX buffer is copied into \<open>in\<close> and the plan is executed.
\<close>

definition rx_analysis :: "cycle_env \<Rightarrow> pstate \<Rightarrow> pstate" where
  "rx_analysis e st =
     (let w = fill_win 0 fft_size (win st);
          inb = snd (fill_in w fft_size (rx_block e) (0, fft_in st));
          outb = fftw_forward inb
      in emit [Fftw_execute] (st\<lparr>win := w, fft_in := inb, fft_out := outb\<rparr>))"

text \<open>Sample counter increment.\<close>

definition count_increment :: "init_env \<Rightarrow> cycle_env \<Rightarrow> pstate \<Rightarrow> pstate" where
  "count_increment ie e st =
     st\<lparr>nrx := count_samples (nrx st) (refill_ret e) (rx_sample_size ie),
        ntx := count_samples (ntx st) (push_ret e) (tx_sample_size ie)\<rparr>"

text \<open>fft.csv is opened with mode \<open>"w"\<close>, written and closed in every iteration.\<close>

definition write_fft_csv :: "pstate \<Rightarrow> pstate" where
  "write_fft_csv st =
     emit [Fopen Fp3, Fclose Fp3]
       (st\<lparr>fft_csv := spectrum_lines fft_size (fs_hz rxcfg) (fft_out st)\<rparr>)"

text \<open>
  The TX buffer is filled. \<open>double i = 1. / txcfg.fs_hz\<close> is declared in the body of the
  \<open>while\<close> loop, so every iteration starts from this value.
\<close>

definition tx_write :: "cycle_env \<Rightarrow> pstate \<Rightarrow> pstate" where
  "tx_write e st =
     (let i = 1 / real_of_int (fs_hz txcfg);
          blk = tx_fill (tx_slots e) i
      in st\<lparr>tx_block := blk, synth_times := synth_times st @ map fst blk\<rparr>)"

text \<open>
  The body of \<open>while (!stop)\<close>. The body never reads \<open>stop\<close>, so a signal during the iteration
  only sets the flag for the next test. A sample size of zero makes the division for the
  counter trap, first the one for \<open>nrx\<close>, then the one for \<open>ntx\<close>.
\<close>

definition cycle :: "init_env \<Rightarrow> cycle_env \<Rightarrow> pstate \<Rightarrow> unit step" where
  "cycle ie e st =
     (let st1 = emit [Buffer_push] st
      in if sint (push_ret e) < 0 then do_shutdown Push_error st1
         else
           let st2 = emit [Buffer_refill] st1
           in if sint (refill_ret e) < 0 then do_shutdown Refill_error st2
              else
                let st3 = rx_analysis e st2
                in if rx_sample_size ie = 0 then Halt Div_by_zero Sigfpe st3
                   else if tx_sample_size ie = 0
                   then Halt Div_by_zero Sigfpe
                          (st3\<lparr>nrx := count_samples (nrx st3) (refill_ret e) (rx_sample_size ie)\<rparr>)
                   else
                     let st4 = tx_write e (write_fft_csv (count_increment ie e st3))
                     in Go () (if sigint e then handle_sig st4 else st4))"

text \<open>After the loop: the files and the transform are released, then \<open>shutdown ()\<close>.\<close>

definition finish :: "pstate \<Rightarrow> result" where
  "finish st =
     (case shutdown (emit [Fclose Fp1, Fclose Fp2, Fftw_destroy_plan,
                           Fftw_free Fft_in, Fftw_free Fft_out] st)
      of (oc, st') \<Rightarrow> Terminated Cancelled oc st')"

text \<open>
  \<open>while (!stop) { ... }\<close> against the iterations the environment provides. When they are
  used up and \<open>stop\<close> is not set, the process is still streaming.
\<close>

fun streaming :: "init_env \<Rightarrow> cycle_env list \<Rightarrow> pstate \<Rightarrow> result" where
  "streaming ie [] st = (if stop st then finish st else Streaming st)"
| "streaming ie (e # es) st =
     (if stop st then finish st
      else case cycle ie e st of
             Halt c oc st' \<Rightarrow> Terminated c oc st'
           | Go _ st' \<Rightarrow> streaming ie es st')"

definition main :: "init_env \<Rightarrow> cycle_env list \<Rightarrow> result" where
  "main ie es =
     (case main_init ie of
        Halt c oc st \<Rightarrow> Terminated c oc st
      | Go _ st \<Rightarrow> streaming ie es st)"

text \<open>Projections of a result.\<close>

fun state_of :: "result \<Rightarrow> pstate" where
  "state_of (Terminated c oc st) = st"
| "state_of (Streaming st) = st"

fun outcome_of :: "result \<Rightarrow> outcome option" where
  "outcome_of (Terminated c oc st) = Some oc"
| "outcome_of (Streaming st) = None"

subsection \<open>Conditions on the environment\<close>

text \<open>Every lookup of one direction succeeds and no attribute write returns an error.\<close>

definition cfg_ok :: "cfg_env \<Rightarrow> bool" where
  "cfg_ok e \<longleftrightarrow>
     phy_chan_found e \<and> 0 \<le> wr_rf_port_select e \<and> 0 \<le> wr_rf_bandwidth e \<and>
     0 \<le> wr_sampling_frequency e \<and> lo_chan_found e \<and> 0 \<le> wr_frequency e"

text \<open>Everything before the loop succeeds.\<close>

definition init_ok :: "init_env \<Rightarrow> bool" where
  "init_ok ie \<longleftrightarrow>
     context_created ie \<and> 0 < devices_count ie \<and> tx_dev_found ie \<and> rx_dev_found ie \<and>
     phy_dev_found ie \<and> cfg_ok (rx_cfg_env ie) \<and> cfg_ok (tx_cfg_env ie) \<and>
     rx0_i_found ie \<and> rx0_q_found ie \<and> tx0_i_found ie \<and> tx0_q_found ie \<and>
     rxbuf_created ie \<and> txbuf_created ie"

text \<open>Push and refill of an iteration succeed.\<close>

definition transfer_ok :: "cycle_env \<Rightarrow> bool" where
  "transfer_ok e \<longleftrightarrow> 0 \<le> sint (push_ret e) \<and> 0 \<le> sint (refill_ret e)"

text \<open>The releases made by \<open>shutdown ()\<close>: buffers, channels and the context.\<close>

fun transport_release :: "event \<Rightarrow> bool" where
  "transport_release (Buffer_destroy d) = True"
| "transport_release (Channel_disable c) = True"
| "transport_release Context_destroy = True"
| "transport_release _ = False"

fun is_finite :: "dval \<Rightarrow> bool" where
  "is_finite (Finite x) = True"
| "is_finite _ = False"

text \<open>
  The Taylor polynomial of the sine up to \<open>x ^ 11\<close>, used to bound \<open>pi\<close> and the first pair
  of an outgoing block.
\<close>

definition sin_poly :: "real \<Rightarrow> real" where
  "sin_poly x =
     x - x ^ 3 / 6 + x ^ 5 / 120 - x ^ 7 / 5040 + x ^ 9 / 362880 - x ^ 11 / 39916800"

subsection \<open>Successful runs\<close>

text \<open>One iteration in which push and refill succeed, without the delivery of a signal.\<close>

abbreviation body :: "init_env \<Rightarrow> cycle_env \<Rightarrow> pstate \<Rightarrow> pstate" where
  "body ie e st \<equiv>
     tx_write e (write_fft_csv (count_increment ie e
       (rx_analysis e (emit [Buffer_refill] (emit [Buffer_push] st)))))"

text \<open>The events of a successful initialisation, and the state it leaves.\<close>

abbreviation init_events :: "event list" where
  "init_events \<equiv>
     [Create_context,
      Channel_enable Rx0_i, Channel_enable Rx0_q, Channel_enable Tx0_i, Channel_enable Tx0_q,
      Create_buffer RX, Create_buffer TX,
      Fftw_malloc Fft_in, Fftw_malloc Fft_out, Fftw_plan, Malloc_win, Fopen Fp1, Fopen Fp2]"

abbreviation init_state :: "init_env \<Rightarrow> pstate" where
  "init_state ie \<equiv>
     \<lparr>ctx = True, rx0_i = True, rx0_q = True, tx0_i = True, tx0_q = True,
      rxbuf = True, txbuf = True, stop = sigint_at_init ie, nrx = 0, ntx = 0,
      win = map (win_garbage ie) [0..<fft_size],
      fft_in = map (in_garbage ie) [0..<fft_size],
      fft_out = map (out_garbage ie) [0..<fft_size],
      fft_csv = [], tx_block = [], synth_times = [],
      events = init_events\<rparr>"

text \<open>The events of one such iteration.\<close>

abbreviation cycle_events :: "event list" where
  "cycle_events \<equiv> [Buffer_push, Buffer_refill, Fftw_execute, Fopen Fp3, Fclose Fp3]"

text \<open>What \<open>shutdown ()\<close> releases when every handle is set, and what is released after the loop.\<close>

abbreviation shutdown_sequence :: "event list" where
  "shutdown_sequence \<equiv>
     [Buffer_destroy RX, Buffer_destroy TX,
      Channel_disable Rx0_i, Channel_disable Rx0_q, Channel_disable Tx0_i, Channel_disable Tx0_q,
      Context_destroy]"

abbreviation finish_events :: "event list" where
  "finish_events \<equiv>
     [Fclose Fp1, Fclose Fp2, Fftw_destroy_plan, Fftw_free Fft_in, Fftw_free Fft_out]"

abbreviation run :: "init_env \<Rightarrow> cycle_env list \<Rightarrow> pstate" where
  "run ie es \<equiv> foldl (\<lambda>s e. body ie e s) (init_state ie) es"

subsection \<open>A test bench\<close>

text \<open>
  An environment in which everything is found and every write succeeds, with 4 bytes per
  sample, and an iteration that transfers a whole block of \<open>buffer_size\<close> zero samples.
\<close>

definition bench_cfg :: cfg_env where
  "bench_cfg =
     \<lparr>phy_chan_found = True, wr_rf_port_select = 0, wr_rf_bandwidth = 0,
      wr_sampling_frequency = 0, lo_chan_found = True, wr_frequency = 0\<rparr>"

definition bench_init :: init_env where
  "bench_init =
     \<lparr>context_created = True, devices_count = 5, tx_dev_found = True, rx_dev_found = True,
      phy_dev_found = True, rx_cfg_env = bench_cfg, tx_cfg_env = bench_cfg,
      rx0_i_found = True, rx0_q_found = True, tx0_i_found = True, tx0_q_found = True,
      rxbuf_created = True, txbuf_created = True, rx_sample_size = 4, tx_sample_size = 4,
      win_garbage = (\<lambda>_. 7), in_garbage = (\<lambda>_. 7), out_garbage = (\<lambda>_. 7),
      sigint_at_init = False\<rparr>"

definition silent_cycle :: cycle_env where
  "silent_cycle =
     \<lparr>push_ret = 4194304, refill_ret = 4194304, rx_block = replicate buffer_size (0, 0),
      tx_slots = buffer_size, sigint = False\<rparr>"

text \<open>The test bench without a context, and iterations whose push fails or which a signal hits.\<close>

definition no_context :: init_env where
  "no_context = bench_init\<lparr>context_created := False\<rparr>"

definition push_fails :: cycle_env where
  "push_fails = silent_cycle\<lparr>push_ret := - 1\<rparr>"

definition interrupted_cycle :: cycle_env where
  "interrupted_cycle = silent_cycle\<lparr>sigint := True\<rparr>"

section \<open>Properties\<close>

subsection \<open>The Hann window\<close>

lemma win_hanning_eq:
  "win_hanning j n = (1 - cos (2 * pi * real_of_int j / real_of_int (n - 1))) / 2"
  by (simp add: win_hanning_def Let_def)

lemma fill_win_length: "length (fill_win cnt n w) = length w"
proof (induction cnt n w rule: fill_win.induct)
  case (1 cnt n w)
  show ?case
  proof (cases "cnt < n")
    case True
    with 1 show ?thesis by (subst fill_win.simps) simp
  next
    case False
    then show ?thesis by (subst fill_win.simps) simp
  qed
qed

lemma fill_win_nth:
  "k < length w \<Longrightarrow>
   fill_win cnt n w ! k = (if cnt \<le> k \<and> k < n then win_hanning (int k) (int n) else w ! k)"
proof (induction cnt n w rule: fill_win.induct)
  case (1 cnt n w)
  show ?case
  proof (cases "cnt < n")
    case True
    have "fill_win cnt n w = fill_win (cnt + 1) n (w[cnt := win_hanning (int cnt) (int n)])"
      using True by (subst fill_win.simps) simp
    moreover have "fill_win (cnt + 1) n (w[cnt := win_hanning (int cnt) (int n)]) ! k =
        (if cnt + 1 \<le> k \<and> k < n then win_hanning (int k) (int n)
         else w[cnt := win_hanning (int cnt) (int n)] ! k)"
      using 1 True by simp
    ultimately show ?thesis
      using "1.prems" True by (cases "k = cnt") (auto simp: nth_list_update)
  next
    case False
    then show ?thesis by (subst fill_win.simps) simp
  qed
qed

lemma fill_win_all:
  "length w = n \<Longrightarrow> fill_win 0 n w = map (\<lambda>k. win_hanning (int k) (int n)) [0..<n]"
  by (rule nth_equalityI) (simp_all add: fill_win_length fill_win_nth)

lemma hann_first: "win_hanning 0 n = 0"
  by (simp add: win_hanning_eq)

lemma hann_last: "2 \<le> n \<Longrightarrow> win_hanning (n - 1) n = 0"
  by (simp add: win_hanning_eq)

lemma hann_bounds: "0 \<le> win_hanning j n \<and> win_hanning j n \<le> 1"
proof -
  have "- 1 \<le> cos (2 * pi * real_of_int j / real_of_int (n - 1))"
       "cos (2 * pi * real_of_int j / real_of_int (n - 1)) \<le> 1"
    by simp_all
  then show ?thesis unfolding win_hanning_eq by simp
qed

lemma hann_sym: "2 \<le> n \<Longrightarrow> win_hanning (n - 1 - j) n = win_hanning j n"
proof -
  assume n: "2 \<le> n"
  then have nz: "real_of_int (n - 1) \<noteq> 0" by simp
  have "2 * pi * real_of_int (n - 1 - j) / real_of_int (n - 1)
      = 2 * pi - 2 * pi * real_of_int j / real_of_int (n - 1)"
    using nz by (simp add: field_simps)
  moreover have "cos (2 * pi - x) = cos x" for x :: real
    by (simp add: cos_diff)
  ultimately show ?thesis by (simp add: win_hanning_eq)
qed

lemma angle_le_pi:
  fixes a d :: real
  assumes "0 < d" "2 * a \<le> d"
  shows "2 * pi * a / d \<le> pi"
proof -
  have "2 * a / d \<le> 1" using assms by simp
  then have "pi * (2 * a / d) \<le> pi * 1" by (intro mult_left_mono) simp_all
  then show ?thesis by (simp add: mult.commute mult.left_commute)
qed

lemma angle_less_pi:
  fixes a d :: real
  assumes "0 < d" "2 * a < d"
  shows "2 * pi * a / d < pi"
proof -
  have "2 * a / d < 1" using assms by simp
  then have "pi * (2 * a / d) < pi * 1" by (intro mult_strict_left_mono) simp_all
  then show ?thesis by (simp add: mult.commute mult.left_commute)
qed

lemma hann_mono:
  assumes "2 \<le> n" "0 \<le> j" "j \<le> k" "2 * k \<le> n - 1"
  shows "win_hanning j n \<le> win_hanning k n"
proof -
  have pos: "0 < real_of_int (n - 1)" using assms by simp
  let ?x = "2 * pi * real_of_int j / real_of_int (n - 1)"
  let ?y = "2 * pi * real_of_int k / real_of_int (n - 1)"
  have "0 \<le> ?x" using assms pos by simp
  moreover have "?x \<le> ?y" using assms pos by (simp add: divide_right_mono)
  moreover have "?y \<le> pi"
  proof -
    have "2 * real_of_int k \<le> real_of_int (n - 1)" using assms(4) by linarith
    with pos show ?thesis by (rule angle_le_pi)
  qed
  ultimately have "cos ?y \<le> cos ?x" by (rule cos_monotone_0_pi_le)
  then show ?thesis unfolding win_hanning_eq by simp
qed

lemma hann_below_one:
  assumes "2 \<le> n" "0 \<le> j" "2 * j < n - 1"
  shows "win_hanning j n < 1"
proof -
  have pos: "0 < real_of_int (n - 1)" using assms by simp
  let ?x = "2 * pi * real_of_int j / real_of_int (n - 1)"
  have "2 * real_of_int j < real_of_int (n - 1)" using assms(3) by linarith
  with pos have lt: "?x < pi" by (rule angle_less_pi)
  have "0 \<le> ?x" using assms pos by simp
  then have "cos pi < cos ?x" using lt by (intro cos_monotone_0_pi) simp_all
  then show ?thesis unfolding win_hanning_eq by simp
qed

lemma hann_one_iff:
  assumes "2 \<le> n" "0 \<le> j" "j < n"
  shows "win_hanning j n = 1 \<longleftrightarrow> 2 * j = n - 1"
proof
  assume "2 * j = n - 1"
  then have "real_of_int (n - 1) = 2 * real_of_int j" by linarith
  moreover have "0 < real_of_int (n - 1)" using assms by simp
  ultimately have "2 * pi * real_of_int j / real_of_int (n - 1) = pi" by simp
  then show "win_hanning j n = 1" unfolding win_hanning_eq by simp
next
  assume one: "win_hanning j n = 1"
  show "2 * j = n - 1"
  proof (rule ccontr)
    assume ne: "2 * j \<noteq> n - 1"
    consider "2 * j < n - 1" | "n - 1 < 2 * j" using ne by linarith
    then show False
    proof cases
      case 1
      with assms have "win_hanning j n < 1" by (intro hann_below_one)
      with one show False by simp
    next
      case 2
      have "0 \<le> n - 1 - j" using assms by linarith
      moreover have "2 * (n - 1 - j) < n - 1" using 2 by arith
      ultimately have "win_hanning (n - 1 - j) n < 1"
        using assms(1) by (intro hann_below_one)
      with one show False using hann_sym [OF assms(1), of j] by simp
    qed
  qed
qed

subsection \<open>The analysis block, the transform and the waveform\<close>

lemma fill_in_length: "length (snd (fill_in w n xs (cnt, inb))) = length inb"
  by (induction xs arbitrary: cnt inb) simp_all

lemma fill_in_nth:
  "k < length inb \<Longrightarrow>
   snd (fill_in w n xs (cnt, inb)) ! k =
     (if cnt \<le> k \<and> k < cnt + length xs \<and> k < n
      then iq (xs ! (k - cnt)) * of_real (w ! k) else inb ! k)"
proof (induction xs arbitrary: cnt inb)
  case Nil
  then show ?case by auto
next
  case (Cons s rest)
  show ?case
  proof (cases "cnt < n")
    case True
    have "snd (fill_in w n (s # rest) (cnt, inb)) ! k =
          snd (fill_in w n rest (cnt + 1, inb[cnt := iq s * of_real (w ! cnt)])) ! k"
      using True by simp
    also have "\<dots> = (if cnt + 1 \<le> k \<and> k < cnt + 1 + length rest \<and> k < n
                     then iq (rest ! (k - (cnt + 1))) * of_real (w ! k)
                     else inb[cnt := iq s * of_real (w ! cnt)] ! k)"
      using Cons.prems by (intro Cons.IH) simp
    also have "\<dots> = (if cnt \<le> k \<and> k < cnt + length (s # rest) \<and> k < n
                     then iq ((s # rest) ! (k - cnt)) * of_real (w ! k) else inb ! k)"
      using Cons.prems True by (cases "k = cnt") (auto simp: nth_Cons' nth_list_update)
    finally show ?thesis .
  next
    case False
    have "snd (fill_in w n (s # rest) (cnt, inb)) ! k = snd (fill_in w n rest (cnt, inb)) ! k"
      using False by simp
    also have "\<dots> = (if cnt \<le> k \<and> k < cnt + length rest \<and> k < n
                     then iq (rest ! (k - cnt)) * of_real (w ! k) else inb ! k)"
      using Cons.prems by (intro Cons.IH)
    also have "\<dots> = inb ! k" using False by auto
    finally show ?thesis using False by auto
  qed
qed

lemma fill_in_all:
  assumes "length inb = n" "n \<le> length xs"
  shows "snd (fill_in w n xs (0, inb)) = map (\<lambda>k. iq (xs ! k) * of_real (w ! k)) [0..<n]"
  using assms by (intro nth_equalityI) (simp_all add: fill_in_length fill_in_nth)

lemma fftw_forward_nth:
  "k < length xs \<Longrightarrow>
   fftw_forward xs ! k =
     (\<Sum>j<length xs. xs ! j * cis (- (2 * pi * real j * real k / real (length xs))))"
  by (simp add: fftw_forward_def Let_def sum_list_sum_nth atLeast0LessThan)

lemma fftw_forward_zero:
  assumes "\<forall>j<length xs. xs ! j = 0" "k < length xs"
  shows "fftw_forward xs ! k = 0"
  using assms by (simp add: fftw_forward_nth)

lemma spectrum_lines_length: "length (spectrum_lines n fs outb) = n"
  by (simp add: spectrum_lines_def)

lemma spectrum_lines_nth:
  "k < n \<Longrightarrow> spectrum_lines n fs outb ! k =
     (real k / real n * real_of_int fs, dval_scale 20 (c_log10 (cmod (outb ! k))))"
  by (simp add: spectrum_lines_def)

lemma c_trunc_abs: "\<bar>real_of_int (c_trunc x)\<bar> \<le> \<bar>x\<bar>"
proof (cases "0 \<le> x")
  case True
  then have "0 \<le> \<lfloor>x\<rfloor>" by simp
  moreover have "real_of_int \<lfloor>x\<rfloor> \<le> x" by simp
  ultimately show ?thesis using True by (simp add: c_trunc_def)
next
  case False
  then have "\<lceil>x\<rceil> \<le> 0" by (simp add: ceiling_le_iff)
  moreover have "x \<le> real_of_int \<lceil>x\<rceil>" by simp
  ultimately show ?thesis using False by (simp add: c_trunc_def)
qed

lemma MHZ_8: "MHZ 8 = 8000000"
  by (simp add: MHZ_def c_trunc_def)

lemma MHZ_4: "MHZ 4 = 4000000"
  by (simp add: MHZ_def c_trunc_def)

lemma fs_hz_txcfg: "fs_hz txcfg = 30720000"
  by (simp add: txcfg_def MHZ_def c_trunc_def)

lemma fs_hz_rxcfg: "fs_hz rxcfg = 30720000"
  by (simp add: rxcfg_def MHZ_def c_trunc_def)

lemma sint_to_short:
  assumes "\<bar>x\<bar> \<le> 256"
  shows "sint (to_short x) = c_trunc x"
proof -
  have "\<bar>real_of_int (c_trunc x)\<bar> \<le> 256" using c_trunc_abs [of x] assms by linarith
  then have "\<bar>c_trunc x\<bar> \<le> 256" by linarith
  then have "- (2 ^ 15) \<le> c_trunc x" "c_trunc x < 2 ^ 15" by simp_all
  then show ?thesis
    unfolding to_short_def by (simp add: sint_sbintrunc' signed_take_bit_int_eq_self)
qed

lemma two_tone_bound: "\<bar>128 * cos a + 128 * cos b\<bar> \<le> (256::real)" "\<bar>128 * sin a + 128 * sin b\<bar> \<le> (256::real)"
proof -
  have "\<bar>cos a\<bar> \<le> 1" "\<bar>cos b\<bar> \<le> 1" "\<bar>sin a\<bar> \<le> 1" "\<bar>sin b\<bar> \<le> 1" by simp_all
  then show "\<bar>128 * cos a + 128 * cos b\<bar> \<le> (256::real)" "\<bar>128 * sin a + 128 * sin b\<bar> \<le> (256::real)"
    by linarith+
qed

lemma tx_fill_length: "length (tx_fill slots i) = slots"
  by (induction slots arbitrary: i) simp_all

lemma tx_fill_nth:
  "k < slots \<Longrightarrow> tx_fill slots i ! k =
     (i + real k / real_of_int (fs_hz txcfg), synth (i + real k / real_of_int (fs_hz txcfg)))"
proof (induction slots arbitrary: i k)
  case 0
  then show ?case by simp
next
  case (Suc slots)
  show ?case
  proof (cases k)
    case 0
    then show ?thesis by simp
  next
    case (Suc k')
    then have "k' < slots" using Suc.prems by simp
    then show ?thesis using Suc.IH [of k' "i + 1 / real_of_int (fs_hz txcfg)"] \<open>k = Suc k'\<close>
      by (simp add: add_divide_distrib algebra_simps)
  qed
qed

subsection \<open>One iteration and the initialisation, when nothing fails\<close>

lemmas stage_defs =
  rx_analysis_def count_increment_def write_fft_csv_def tx_write_def emit_def handle_sig_def

lemma cycle_Go:
  assumes "transfer_ok e" "rx_sample_size ie \<noteq> 0" "tx_sample_size ie \<noteq> 0"
  shows "cycle ie e st = Go () (if sigint e then handle_sig (body ie e st) else body ie e st)"
  using assms by (simp add: cycle_def transfer_ok_def Let_def not_less [symmetric])

lemma cfg_ok_Go:
  "phy \<Longrightarrow> cfg_ok e \<Longrightarrow> cfg_ad9361_streaming_ch phy e st = Go True st"
  by (simp add: cfg_ad9361_streaming_ch_def cfg_ok_def andthen_def ASSERT_def errchk_def)

lemma main_init_ok:
  assumes "init_ok ie"
  shows "main_init ie = Go () (init_state ie)"
  using assms
  by (simp add: main_init_def init_ok_def acquire_context_def configure_streaming_def
      init_channels_def create_buffers_def configure_fft_def cfg_ok_Go
      andthen_def ASSERT_def emit_def handle_sig_def initial_state_def Let_def)

lemma body_stop [simp]: "stop (body ie e st) = stop st"
  by (simp add: stage_defs Let_def)

lemma body_events:
  "events (body ie e st) =
     events st @ [Buffer_push, Buffer_refill, Fftw_execute, Fopen Fp3, Fclose Fp3]"
  by (simp add: stage_defs Let_def)

lemma body_handles:
  "ctx (body ie e st) = ctx st" "rxbuf (body ie e st) = rxbuf st" "txbuf (body ie e st) = txbuf st"
  "rx0_i (body ie e st) = rx0_i st" "rx0_q (body ie e st) = rx0_q st"
  "tx0_i (body ie e st) = tx0_i st" "tx0_q (body ie e st) = tx0_q st"
  by (simp_all add: stage_defs Let_def)

lemma body_counters:
  "nrx (body ie e st) = count_samples (nrx st) (refill_ret e) (rx_sample_size ie)"
  "ntx (body ie e st) = count_samples (ntx st) (push_ret e) (tx_sample_size ie)"
  by (simp_all add: stage_defs Let_def)

lemma body_win: "win (body ie e st) = fill_win 0 fft_size (win st)"
  by (simp add: stage_defs Let_def)

lemma body_fft_in:
  "fft_in (body ie e st) =
     snd (fill_in (fill_win 0 fft_size (win st)) fft_size (rx_block e) (0, fft_in st))"
  by (simp add: stage_defs Let_def)

lemma body_fft_out: "fft_out (body ie e st) = fftw_forward (fft_in (body ie e st))"
  by (simp add: stage_defs Let_def)

lemma body_fft_csv:
  "fft_csv (body ie e st) = spectrum_lines fft_size (fs_hz rxcfg) (fft_out (body ie e st))"
  by (simp add: stage_defs Let_def)

lemma body_tx_block:
  "tx_block (body ie e st) = tx_fill (tx_slots e) (1 / real_of_int (fs_hz txcfg))"
  by (simp add: stage_defs Let_def)

lemma body_synth_times:
  "synth_times (body ie e st) = synth_times st @ map fst (tx_block (body ie e st))"
  by (simp add: stage_defs Let_def)

lemma streaming_ok:
  assumes "\<not> stop st" "\<forall>e\<in>set es. transfer_ok e \<and> \<not> sigint e"
    "rx_sample_size ie \<noteq> 0" "tx_sample_size ie \<noteq> 0"
  shows "streaming ie es st = Streaming (foldl (\<lambda>s e. body ie e s) st es)"
  using assms by (induction es arbitrary: st) (simp_all add: cycle_Go)

lemma main_ok:
  assumes "init_ok ie" "\<not> sigint_at_init ie" "\<forall>e\<in>set es. transfer_ok e \<and> \<not> sigint e"
    "rx_sample_size ie \<noteq> 0" "tx_sample_size ie \<noteq> 0"
  shows "main ie es = Streaming (foldl (\<lambda>s e. body ie e s) (init_state ie) es)"
  using assms by (simp add: main_def main_init_ok streaming_ok)

subsection \<open>The spectrum of an iteration\<close>

lemma run_lengths:
  "length (win (run ie es)) = fft_size \<and> length (fft_in (run ie es)) = fft_size"
proof (induction es rule: rev_induct)
  case Nil
  show ?case by simp
next
  case (snoc e es)
  then show ?case
    by (simp add: body_win body_fft_in fill_win_length fill_in_length)
qed

lemma body_win_hann:
  assumes "length (win st) = fft_size"
  shows "win (body ie e st) = map (\<lambda>k. win_hanning (int k) (int fft_size)) [0..<fft_size]"
  using assms by (simp add: body_win fill_win_all)

lemma body_fft_in_eq:
  assumes "length (win st) = fft_size" "length (fft_in st) = fft_size"
    "fft_size \<le> length (rx_block e)"
  shows "fft_in (body ie e st) =
     map (\<lambda>k. iq (rx_block e ! k) * of_real (win (body ie e st) ! k)) [0..<fft_size]"
  using assms by (simp add: body_fft_in body_win fill_in_all)

lemma bench_init_ok: "init_ok bench_init"
  by (simp add: init_ok_def cfg_ok_def bench_init_def bench_cfg_def)

lemma bench_init_fields:
  "\<not> sigint_at_init bench_init" "rx_sample_size bench_init \<noteq> 0" "tx_sample_size bench_init \<noteq> 0"
  by (simp_all add: bench_init_def)

lemma silent_cycle_ok: "transfer_ok silent_cycle \<and> \<not> sigint silent_cycle"
  by (simp add: transfer_ok_def silent_cycle_def)

lemma silent_cycle_block: "fft_size \<le> length (rx_block silent_cycle)"
  by (simp add: silent_cycle_def fft_size_def buffer_size_def)

lemma body_rx_block_cong:
  assumes "length (win st) = fft_size" "length (fft_in st) = fft_size"
    "fft_size \<le> length (rx_block e)" "take fft_size blk = take fft_size (rx_block e)"
  shows "body ie (e\<lparr>rx_block := blk\<rparr>) st = body ie e st"
proof -
  have len: "fft_size \<le> length blk"
  proof -
    have "length (take fft_size blk) = fft_size" using assms(3,4) by simp
    then show ?thesis by simp
  qed
  have nth: "blk ! k = rx_block e ! k" if "k < fft_size" for k
  proof -
    have "take fft_size blk ! k = take fft_size (rx_block e) ! k" using assms(4) by simp
    then show ?thesis using that by simp
  qed
  have "snd (fill_in (fill_win 0 fft_size (win st)) fft_size blk (0, fft_in st)) =
        snd (fill_in (fill_win 0 fft_size (win st)) fft_size (rx_block e) (0, fft_in st))"
    using assms(1,2,3) len nth by (simp add: fill_in_all)
  then show ?thesis by (simp add: stage_defs Let_def)
qed

text \<open>
  Claim C1. In every iteration that runs through, with a refilled block of at least
  \<open>fft_size\<close> pairs: \<open>in[k] = (I_k + \<i> Q_k) * win[k]\<close> for the first \<open>fft_size\<close> pairs of the
  block, \<open>out\<close> is the forward DFT of length \<open>fft_size\<close> of \<open>in\<close>, and line \<open>k\<close> of fft.csv is
  the frequency \<open>(k / fft_size) * fs_hz\<close> with the magnitude \<open>20 * log10 |out[k]|\<close> (minus
  infinity where \<open>out[k] = 0\<close>). The pairs after the first \<open>fft_size\<close> are ignored: a block that
  agrees on them leaves the same state.
\<close>

theorem spectral_engine_cycle:
  assumes "init_ok ie" "\<not> sigint_at_init ie"
    and "rx_sample_size ie \<noteq> 0" "tx_sample_size ie \<noteq> 0"
    and "\<forall>c\<in>set (es @ [e]). transfer_ok c \<and> \<not> sigint c"
    and "fft_size \<le> length (rx_block e)"
    and "st = state_of (main ie (es @ [e]))"
  shows "fft_in st =
           map (\<lambda>k. (of_int (sint (fst (rx_block e ! k))) + \<i> * of_int (sint (snd (rx_block e ! k))))
                     * of_real (win st ! k)) [0..<fft_size]
       \<and> (\<forall>k<fft_size. fft_out st ! k =
             (\<Sum>j<fft_size. fft_in st ! j * cis (- (2 * pi * real j * real k / real fft_size))))
       \<and> fft_csv st =
           map (\<lambda>k. (real k / real fft_size * real_of_int (fs_hz rxcfg),
                     if fft_out st ! k = 0 then NegInf
                     else Finite (20 * log 10 (cmod (fft_out st ! k))))) [0..<fft_size]
       \<and> (\<forall>blk. take fft_size blk = take fft_size (rx_block e) \<longrightarrow>
             state_of (main ie (es @ [e\<lparr>rx_block := blk\<rparr>])) = st)"
proof -
  let ?s = "run ie es"
  have es: "\<forall>c\<in>set es. transfer_ok c \<and> \<not> sigint c" and e: "transfer_ok e \<and> \<not> sigint e"
    using assms(5) by simp_all
  have st: "st = body ie e ?s"
    using assms main_ok [of ie "es @ [e]"] by simp
  have len: "length (win ?s) = fft_size" "length (fft_in ?s) = fft_size"
    using run_lengths [of ie es] by simp_all
  have len_in: "length (fft_in st) = fft_size"
    unfolding st using len by (simp add: body_fft_in fill_in_length)
  have "fft_in st = map (\<lambda>k. iq (rx_block e ! k) * of_real (win st ! k)) [0..<fft_size]"
    unfolding st using len assms(6) by (rule body_fft_in_eq)
  then have A: "fft_in st =
           map (\<lambda>k. (of_int (sint (fst (rx_block e ! k))) + \<i> * of_int (sint (snd (rx_block e ! k))))
                     * of_real (win st ! k)) [0..<fft_size]"
    by (simp add: iq_def)
  have out: "fft_out st = fftw_forward (fft_in st)"
    unfolding st by (rule body_fft_out)
  have B: "\<forall>k<fft_size. fft_out st ! k =
             (\<Sum>j<fft_size. fft_in st ! j * cis (- (2 * pi * real j * real k / real fft_size)))"
    using fftw_forward_nth [of _ "fft_in st"] len_in out by simp
  have "fft_csv st = spectrum_lines fft_size (fs_hz rxcfg) (fft_out st)"
    unfolding st by (rule body_fft_csv)
  then have C: "fft_csv st =
           map (\<lambda>k. (real k / real fft_size * real_of_int (fs_hz rxcfg),
                     if fft_out st ! k = 0 then NegInf
                     else Finite (20 * log 10 (cmod (fft_out st ! k))))) [0..<fft_size]"
    by (simp add: spectrum_lines_def c_log10_def)
  have D: "state_of (main ie (es @ [e\<lparr>rx_block := blk\<rparr>])) = st"
    if "take fft_size blk = take fft_size (rx_block e)" for blk
  proof -
    have "\<forall>c\<in>set (es @ [e\<lparr>rx_block := blk\<rparr>]). transfer_ok c \<and> \<not> sigint c"
      using es e by (simp add: transfer_ok_def)
    then have "main ie (es @ [e\<lparr>rx_block := blk\<rparr>]) =
        Streaming (run ie (es @ [e\<lparr>rx_block := blk\<rparr>]))"
      using assms(1-4) by (intro main_ok)
    then show ?thesis
      unfolding st using body_rx_block_cong [OF len assms(6) that, of ie] by simp
  qed
  from A B C D show ?thesis by blast
qed

theorem spectral_engine_cycle_witness:
  "init_ok bench_init \<and> \<not> sigint_at_init bench_init
   \<and> rx_sample_size bench_init \<noteq> 0 \<and> tx_sample_size bench_init \<noteq> 0
   \<and> transfer_ok silent_cycle \<and> \<not> sigint silent_cycle
   \<and> fft_size \<le> length (rx_block silent_cycle)
   \<and> length (fft_csv (state_of (main bench_init ([] @ [silent_cycle])))) = fft_size"
proof -
  have h: "\<forall>c\<in>set ([] @ [silent_cycle]). transfer_ok c \<and> \<not> sigint c"
    using silent_cycle_ok by simp
  have "fft_csv (state_of (main bench_init ([] @ [silent_cycle]))) =
      map (\<lambda>k. (real k / real fft_size * real_of_int (fs_hz rxcfg),
                if fft_out (state_of (main bench_init ([] @ [silent_cycle]))) ! k = 0 then NegInf
                else Finite (20 * log 10 (cmod (fft_out (state_of (main bench_init ([] @ [silent_cycle]))) ! k)))))
        [0..<fft_size]"
    using spectral_engine_cycle [OF bench_init_ok bench_init_fields h silent_cycle_block refl]
    by blast
  then have "length (fft_csv (state_of (main bench_init ([] @ [silent_cycle])))) = fft_size"
    by (simp only: length_map length_upt diff_zero)
  then show ?thesis
    using bench_init_ok bench_init_fields silent_cycle_ok silent_cycle_block by blast
qed

subsection \<open>The last element of the analysis block, and an all-zero block\<close>

lemma fft_size_ge2: "2 \<le> fft_size"
  by (simp add: fft_size_def)

lemma hann_last_fft_size: "win_hanning (int fft_size - 1) (int fft_size) = 0"
proof -
  have "2 \<le> int fft_size" using fft_size_ge2 by simp
  then show ?thesis by (rule hann_last)
qed

lemma main_last_state:
  assumes "init_ok ie" "\<not> sigint_at_init ie"
    and "rx_sample_size ie \<noteq> 0" "tx_sample_size ie \<noteq> 0"
    and "\<forall>c\<in>set (es @ [e]). transfer_ok c \<and> \<not> sigint c"
  shows "main ie (es @ [e]) = Streaming (body ie e (run ie es))"
  using main_ok [of ie "es @ [e]"] assms by simp

lemma last_element:
  assumes "length (win st) = fft_size" "length (fft_in st) = fft_size"
    "fft_size \<le> length (rx_block e)"
  shows "win (body ie e st) ! (fft_size - 1) = 0" "fft_in (body ie e st) ! (fft_size - 1) = 0"
proof -
  have lt: "fft_size - 1 < fft_size" using fft_size_ge2 by simp
  show w: "win (body ie e st) ! (fft_size - 1) = 0"
    using assms(1) lt by (simp add: body_win_hann hann_last_fft_size)
  have "fft_in (body ie e st) ! (fft_size - 1) =
        iq (rx_block e ! (fft_size - 1)) * of_real (win (body ie e st) ! (fft_size - 1))"
    using lt by (simp add: body_fft_in_eq [OF assms])
  then show "fft_in (body ie e st) ! (fft_size - 1) = 0" using w by simp
qed

lemma last_sample_ignored:
  assumes "length (win st) = fft_size" "length (fft_in st) = fft_size"
    "fft_size \<le> length (rx_block e)"
  shows "body ie (e\<lparr>rx_block := (rx_block e)[fft_size - 1 := s]\<rparr>) st = body ie e st"
proof -
  let ?e' = "e\<lparr>rx_block := (rx_block e)[fft_size - 1 := s]\<rparr>"
  let ?w = "fill_win 0 fft_size (win st)"
  have lt: "fft_size - 1 < fft_size" using fft_size_ge2 by simp
  have w0: "?w ! (fft_size - 1) = 0"
    using last_element(1) [OF assms, of ie] by (simp add: body_win)
  have "map (\<lambda>k. iq ((rx_block e)[fft_size - 1 := s] ! k) * of_real (?w ! k)) [0..<fft_size] =
        map (\<lambda>k. iq (rx_block e ! k) * of_real (?w ! k)) [0..<fft_size]"
  proof (rule map_cong [OF refl])
    fix k assume "k \<in> set [0..<fft_size]"
    show "iq ((rx_block e)[fft_size - 1 := s] ! k) * of_real (?w ! k) =
          iq (rx_block e ! k) * of_real (?w ! k)"
    proof (cases "k = fft_size - 1")
      case True
      then show ?thesis using w0 by simp
    next
      case False
      then show ?thesis by simp
    qed
  qed
  then have "snd (fill_in ?w fft_size (rx_block ?e') (0, fft_in st)) =
        snd (fill_in ?w fft_size (rx_block e) (0, fft_in st))"
    using assms by (simp add: fill_in_all)
  then show ?thesis by (simp add: stage_defs Let_def)
qed

text \<open>
  Claim C10. After every iteration that runs through, with a block of at least \<open>fft_size\<close>
  pairs, the window is zero at index \<open>fft_size - 1\<close> and so is \<open>in[fft_size - 1]\<close>; whatever
  pair stands at that index of the block, the iteration leaves the same state.
\<close>

theorem last_analysis_element_zero:
  assumes "init_ok ie" "\<not> sigint_at_init ie"
    and "rx_sample_size ie \<noteq> 0" "tx_sample_size ie \<noteq> 0"
    and "\<forall>c\<in>set (es @ [e]). transfer_ok c \<and> \<not> sigint c"
    and "fft_size \<le> length (rx_block e)"
    and "st = state_of (main ie (es @ [e]))"
  shows "win st ! (fft_size - 1) = 0
       \<and> fft_in st ! (fft_size - 1) = 0
       \<and> (\<forall>s. state_of (main ie (es @ [e\<lparr>rx_block := (rx_block e)[fft_size - 1 := s]\<rparr>])) = st)"
proof -
  have st: "st = body ie e (run ie es)"
    using assms(7) main_last_state [OF assms(1-5)] by simp
  have len: "length (win (run ie es)) = fft_size" "length (fft_in (run ie es)) = fft_size"
    using run_lengths [of ie es] by simp_all
  have A: "win st ! (fft_size - 1) = 0" "fft_in st ! (fft_size - 1) = 0"
    unfolding st using last_element [OF len assms(6), of ie] by simp_all
  have B: "state_of (main ie (es @ [e\<lparr>rx_block := (rx_block e)[fft_size - 1 := s]\<rparr>])) = st" for s
  proof -
    have "\<forall>c\<in>set (es @ [e\<lparr>rx_block := (rx_block e)[fft_size - 1 := s]\<rparr>]).
            transfer_ok c \<and> \<not> sigint c"
      using assms(5) by (simp add: transfer_ok_def)
    from main_last_state [OF assms(1-4) this] show ?thesis
      unfolding st using last_sample_ignored [OF len assms(6), where s = s and ie = ie] by simp
  qed
  from A B show ?thesis by blast
qed

theorem last_analysis_element_zero_witness:
  "init_ok bench_init \<and> \<not> sigint_at_init bench_init
   \<and> rx_sample_size bench_init \<noteq> 0 \<and> tx_sample_size bench_init \<noteq> 0
   \<and> transfer_ok silent_cycle \<and> \<not> sigint silent_cycle
   \<and> fft_size \<le> length (rx_block silent_cycle)
   \<and> fft_in (state_of (main bench_init ([] @ [silent_cycle]))) ! (fft_size - 1) = 0"
proof -
  have h: "\<forall>c\<in>set ([] @ [silent_cycle]). transfer_ok c \<and> \<not> sigint c"
    using silent_cycle_ok by simp
  have "fft_in (state_of (main bench_init ([] @ [silent_cycle]))) ! (fft_size - 1) = 0"
    using last_analysis_element_zero
      [OF bench_init_ok bench_init_fields h silent_cycle_block refl]
    by blast
  then show ?thesis
    using bench_init_ok bench_init_fields silent_cycle_ok silent_cycle_block by blast
qed

lemma zero_block_lines:
  assumes "length (win st) = fft_size" "length (fft_in st) = fft_size"
    "rx_block e = replicate m (0, 0)" "fft_size \<le> m" "k < fft_size"
  shows "fft_csv (body ie e st) ! k = (real k / real fft_size * real_of_int (fs_hz rxcfg), NegInf)"
proof -
  have blk: "fft_size \<le> length (rx_block e)" using assms(3,4) by simp
  have in0: "fft_in (body ie e st) ! j = 0" if "j < fft_size" for j
    using that assms(3,4) by (simp add: body_fft_in_eq [OF assms(1,2) blk] iq_def)
  have len: "length (fft_in (body ie e st)) = fft_size"
    using assms(2) by (simp add: body_fft_in fill_in_length)
  have "fft_out (body ie e st) ! k = 0"
    unfolding body_fft_out using in0 len assms(5) by (intro fftw_forward_zero) simp_all
  then show ?thesis
    using assms(5) by (simp add: body_fft_csv spectrum_lines_nth c_log10_def)
qed

text \<open>
  Claim C9, as the code has it. For an all-zero block of at least \<open>fft_size\<close> pairs the
  iteration runs through and every line of fft.csv carries the magnitude
  \<open>20 * log10 (0)\<close>, which is minus infinity: no finite floor is applied.
\<close>

theorem zero_block_spectrum:
  assumes "init_ok ie" "\<not> sigint_at_init ie"
    and "rx_sample_size ie \<noteq> 0" "tx_sample_size ie \<noteq> 0"
    and "\<forall>c\<in>set (es @ [e]). transfer_ok c \<and> \<not> sigint c"
    and "rx_block e = replicate m (0, 0)" "fft_size \<le> m"
  shows "(\<exists>st. main ie (es @ [e]) = Streaming st)
       \<and> length (fft_csv (state_of (main ie (es @ [e])))) = fft_size
       \<and> (\<forall>k<fft_size. fft_csv (state_of (main ie (es @ [e]))) ! k =
             (real k / real fft_size * real_of_int (fs_hz rxcfg), NegInf))"
proof -
  have m: "main ie (es @ [e]) = Streaming (body ie e (run ie es))"
    using assms(1-5) by (rule main_last_state)
  have len: "length (win (run ie es)) = fft_size" "length (fft_in (run ie es)) = fft_size"
    using run_lengths [of ie es] by simp_all
  have "length (fft_csv (body ie e (run ie es))) = fft_size"
    by (simp add: body_fft_csv spectrum_lines_length)
  moreover have "\<forall>k<fft_size. fft_csv (body ie e (run ie es)) ! k =
             (real k / real fft_size * real_of_int (fs_hz rxcfg), NegInf)"
    using zero_block_lines [OF len assms(6,7)] by blast
  ultimately show ?thesis using m by simp
qed

lemma silent_cycle_zero: "rx_block silent_cycle = replicate buffer_size (0, 0)"
  by (simp add: silent_cycle_def)

lemma fft_size_le_buffer_size: "fft_size \<le> buffer_size"
  by (simp add: fft_size_def buffer_size_def)

theorem zero_block_spectrum_witness:
  "init_ok bench_init \<and> \<not> sigint_at_init bench_init
   \<and> rx_sample_size bench_init \<noteq> 0 \<and> tx_sample_size bench_init \<noteq> 0
   \<and> transfer_ok silent_cycle \<and> \<not> sigint silent_cycle
   \<and> rx_block silent_cycle = replicate buffer_size (0, 0) \<and> fft_size \<le> buffer_size
   \<and> length (fft_csv (state_of (main bench_init ([] @ [silent_cycle])))) = fft_size
   \<and> snd (fft_csv (state_of (main bench_init ([] @ [silent_cycle]))) ! 0) = NegInf"
proof -
  have h: "\<forall>c\<in>set ([] @ [silent_cycle]). transfer_ok c \<and> \<not> sigint c"
    using silent_cycle_ok by simp
  note t = zero_block_spectrum
      [OF bench_init_ok bench_init_fields h silent_cycle_zero fft_size_le_buffer_size]
  have "0 < fft_size" using fft_size_ge2 by simp
  then have "fft_csv (state_of (main bench_init ([] @ [silent_cycle]))) ! 0 =
      (real 0 / real fft_size * real_of_int (fs_hz rxcfg), NegInf)"
    using t by blast
  then have "snd (fft_csv (state_of (main bench_init ([] @ [silent_cycle]))) ! 0) = NegInf"
    by (simp only: snd_conv)
  moreover have "length (fft_csv (state_of (main bench_init ([] @ [silent_cycle])))) = fft_size"
    using t by blast
  ultimately show ?thesis
    using bench_init_ok bench_init_fields silent_cycle_ok silent_cycle_zero
      fft_size_le_buffer_size by blast
qed

text \<open>
  Claim C9 as stated fails: on the test bench, after one iteration with an all-zero block,
  the magnitude of bin 0 is not a finite value.
\<close>

theorem zero_block_no_floor:
  "\<not> is_finite (snd (fft_csv (state_of (main bench_init [silent_cycle])) ! 0))"
proof -
  have h: "\<forall>c\<in>set ([] @ [silent_cycle]). transfer_ok c \<and> \<not> sigint c"
    using silent_cycle_ok by simp
  have m: "main bench_init [silent_cycle] = Streaming (body bench_init silent_cycle (run bench_init []))"
    using main_last_state [OF bench_init_ok bench_init_fields h] by simp
  have len: "length (win (run bench_init [])) = fft_size"
      "length (fft_in (run bench_init [])) = fft_size"
    using run_lengths [of bench_init "[]"] by simp_all
  have "0 < fft_size" using fft_size_ge2 by simp
  from zero_block_lines [OF len silent_cycle_zero fft_size_le_buffer_size this, of bench_init]
  show ?thesis using m by simp
qed

subsection \<open>Numbers: bounds on \<open>pi\<close> and the values stored in \<open>float\<close>\<close>

lemma sum_upto_12:
  fixes f :: "nat \<Rightarrow> real"
  shows "(\<Sum>m<12. f m) =
     f 0 + f 1 + f 2 + f 3 + f 4 + f 5 + f 6 + f 7 + f 8 + f 9 + f 10 + f 11"
  by (simp add: eval_nat_numeral)

lemma sin_coeff_values:
  "sin_coeff 1 = 1" "sin_coeff (Suc 0) = 1" "sin_coeff 2 = 0"
  "sin_coeff 3 = - 1 / 6" "sin_coeff 4 = 0" "sin_coeff 5 = 1 / 120" "sin_coeff 6 = 0"
  "sin_coeff 7 = - 1 / 5040" "sin_coeff 8 = 0" "sin_coeff 9 = 1 / 362880" "sin_coeff 10 = 0"
  "sin_coeff 11 = - 1 / 39916800"
  by (simp_all add: sin_coeff_def fact_numeral)

lemma sin_taylor:
  "\<bar>sin x - sin_poly x\<bar> \<le> \<bar>x\<bar> ^ 12 / 479001600"
proof -
  have f: "inverse (fact 12) = (1 / 479001600 :: real)" by (simp add: fact_numeral)
  have "(\<Sum>m<12. sin_coeff m * x ^ m) = sin_poly x"
    unfolding sum_upto_12 sin_poly_def by (simp add: sin_coeff_values)
  moreover have "\<bar>sin x - (\<Sum>m<12. sin_coeff m * x ^ m)\<bar> \<le> inverse (fact 12) * \<bar>x\<bar> ^ 12"
    by (rule Maclaurin_sin_bound)
  ultimately have "\<bar>sin x - sin_poly x\<bar> \<le> 1 / 479001600 * \<bar>x\<bar> ^ 12"
    by (simp only: f)
  then show ?thesis by simp
qed

lemma sin_upper: "sin x \<le> sin_poly x + \<bar>x\<bar> ^ 12 / 479001600"
  using sin_taylor [of x] by linarith

lemma sin_lower: "sin_poly x - \<bar>x\<bar> ^ 12 / 479001600 \<le> sin x"
  using sin_taylor [of x] by linarith

lemma pi_lower: "3.141592632 < pi"
proof -
  let ?x = "523598772 / 1000000000 :: real"
  have "sin_poly ?x + \<bar>?x\<bar> ^ 12 / 479001600 < 1 / 2"
    by (simp add: sin_poly_def power_divide)
  then have "sin ?x < sin (pi / 6)"
    using sin_upper [of ?x] by (simp only: sin_30)
  moreover have "- (pi / 2) \<le> ?x" "?x \<le> pi / 2" "- (pi / 2) \<le> pi / 6" "pi / 6 \<le> pi / 2"
    using pi_ge_two by simp_all
  ultimately have "?x < pi / 6" by (simp only: sin_mono_less_eq)
  then show ?thesis by simp
qed

lemma pi_upper: "pi < 3.14159274"
proof -
  let ?x = "52359879 / 100000000 :: real"
  have "1 / 2 < sin_poly ?x - \<bar>?x\<bar> ^ 12 / 479001600"
    by (simp add: sin_poly_def power_divide)
  then have "sin (pi / 6) < sin ?x"
    using sin_lower [of ?x] by (simp only: sin_30)
  moreover have "- (pi / 2) \<le> ?x" "?x \<le> pi / 2" "- (pi / 2) \<le> pi / 6" "pi / 6 \<le> pi / 2"
    using pi_ge_two by simp_all
  ultimately have "pi / 6 < ?x" by (simp only: sin_mono_less_eq)
  then show ?thesis by simp
qed

lemma round_half_even_up:
  assumes "of_int k + 1 / 2 < q" "q < of_int k + 1"
  shows "round_half_even q = k + 1"
proof -
  have "\<lfloor>q\<rfloor> = k" using assms by (intro floor_unique) linarith+
  then show ?thesis using assms by (simp add: round_half_even_def Let_def)
qed

lemma to_float_freq1: "to_float (2 * pi * real_of_int FREQ1) = 50265484"
proof -
  let ?x = "2 * pi * 8000000"
  have b: "40000000 < ?x" "?x < 60000000" using pi_lower pi_upper by simp_all
  have "\<lfloor>log 2 ?x\<rfloor> = 25"
    using b by (subst floor_log_eq_powr_iff) simp_all
  moreover have "round_half_even (?x / 4) = 12566370 + 1"
  proof (rule round_half_even_up)
    show "real_of_int 12566370 + 1 / 2 < ?x / 4" using pi_lower by simp
    show "?x / 4 < real_of_int 12566370 + 1" using pi_upper by simp
  qed
  moreover have "\<bar>?x\<bar> = ?x" "?x \<noteq> 0" by simp_all
  ultimately show ?thesis
    unfolding to_float_def FREQ1_def MHZ_8 Let_def by simp
qed

lemma to_float_freq2: "to_float (2 * pi * real_of_int FREQ2) = 25132742"
proof -
  let ?x = "2 * pi * 4000000"
  have b: "20000000 < ?x" "?x < 30000000" using pi_lower pi_upper by simp_all
  have "\<lfloor>log 2 ?x\<rfloor> = 24"
    using b by (subst floor_log_eq_powr_iff) simp_all
  moreover have "round_half_even (?x / 2) = 12566370 + 1"
  proof (rule round_half_even_up)
    show "real_of_int 12566370 + 1 / 2 < ?x / 2" using pi_lower by simp
    show "?x / 2 < real_of_int 12566370 + 1" using pi_upper by simp
  qed
  moreover have "\<bar>?x\<bar> = ?x" "?x \<noteq> 0" by simp_all
  ultimately show ?thesis
    unfolding to_float_def FREQ2_def MHZ_4 Let_def by simp
qed

subsection \<open>The first pair of a block\<close>

lemma c_trunc_eq:
  assumes "0 \<le> k" "of_int k \<le> x" "x < of_int k + 1"
  shows "c_trunc x = k"
proof -
  have "0 \<le> x" using assms(1,2) by (meson of_int_0_le_iff order_trans)
  moreover have "\<lfloor>x\<rfloor> = k" using assms(2,3) by (intro floor_unique)
  ultimately show ?thesis by (simp add: c_trunc_def)
qed

lemma sin_first:
  "0.72986 < sin (12566371 / 15360000 :: real)" "sin (12566371 / 15360000 :: real) < 0.72987"
proof -
  let ?x = "12566371 / 15360000 :: real"
  have "0.72986 < sin_poly ?x - \<bar>?x\<bar> ^ 12 / 479001600"
    by (simp add: sin_poly_def power_divide)
  then show "0.72986 < sin ?x" using sin_lower [of ?x] by linarith
  have "sin_poly ?x + \<bar>?x\<bar> ^ 12 / 479001600 < 0.72987"
    by (simp add: sin_poly_def power_divide)
  then show "sin ?x < 0.72987" using sin_upper [of ?x] by linarith
qed

lemma sin_first_half:
  "0.39774 < sin (12566371 / 30720000 :: real)" "sin (12566371 / 30720000 :: real) < 0.39775"
proof -
  let ?x = "12566371 / 30720000 :: real"
  have "0.39774 < sin_poly ?x - \<bar>?x\<bar> ^ 12 / 479001600"
    by (simp add: sin_poly_def power_divide)
  then show "0.39774 < sin ?x" using sin_lower [of ?x] by linarith
  have "sin_poly ?x + \<bar>?x\<bar> ^ 12 / 479001600 < 0.39775"
    by (simp add: sin_poly_def power_divide)
  then show "sin ?x < 0.39775" using sin_upper [of ?x] by linarith
qed

lemma square_between:
  fixes a b x :: real
  assumes "0 \<le> a" "a < x" "x < b"
  shows "a ^ 2 < x ^ 2" "x ^ 2 < b ^ 2"
  using assms by (simp_all add: power_strict_mono)

lemma first_pair_values:
  "c_trunc (128 * cos (50265484 * (1 / 30720000)) + 128 * cos (25132742 * (1 / 30720000))) = 79"
  "c_trunc (128 * sin (50265484 * (1 / 30720000)) + 128 * sin (25132742 * (1 / 30720000))) = 221"
proof -
  let ?b = "12566371 / 15360000 :: real"
  let ?h = "12566371 / 30720000 :: real"
  define s1 where "s1 = sin ?b"
  define s2 where "s2 = sin ?h"
  have a: "50265484 * (1 / 30720000) = 2 * ?b" "25132742 * (1 / 30720000) = ?b"
    by simp_all
  have s1: "72986 / 100000 < s1" "s1 < 72987 / 100000" unfolding s1_def using sin_first by simp_all
  have s2: "39774 / 100000 < s2" "s2 < 39775 / 100000" unfolding s2_def using sin_first_half by simp_all
  have q1: "5326 / 10000 < s1 ^ 2" "s1 ^ 2 < 5328 / 10000"
    using square_between [of "72986 / 100000" s1 "72987 / 100000"] s1 by (simp_all add: power2_eq_square)
  have q2: "1581 / 10000 < s2 ^ 2" "s2 ^ 2 < 1583 / 10000"
    using square_between [of "39774 / 100000" s2 "39775 / 100000"] s2 by (simp_all add: power2_eq_square)
  have cb: "cos ?b = 1 - 2 * s2 ^ 2"
    using cos_double_sin [of ?h] by (simp add: s2_def)
  have ca: "cos (2 * ?b) = 1 - 2 * s1 ^ 2"
    unfolding s1_def by (rule cos_double_sin)
  have sa: "sin (2 * ?b) = 2 * s1 * (1 - 2 * s2 ^ 2)"
    unfolding sin_double cb s1_def ..
  have I: "128 * cos (2 * ?b) + 128 * cos ?b = 256 - 256 * s1 ^ 2 - 256 * s2 ^ 2"
    unfolding ca cb by simp
  have "79 \<le> 256 - 256 * s1 ^ 2 - 256 * s2 ^ 2" "256 - 256 * s1 ^ 2 - 256 * s2 ^ 2 < 80"
    using q1 q2 by linarith+
  then have "c_trunc (128 * cos (2 * ?b) + 128 * cos ?b) = 79"
    unfolding I by (intro c_trunc_eq) simp_all
  then show "c_trunc (128 * cos (50265484 * (1 / 30720000)) + 128 * cos (25132742 * (1 / 30720000))) = 79"
    by (simp only: a(1,2))
  define u where "u = 3 - 4 * s2 ^ 2"
  have u: "23668 / 10000 < u" "u < 23676 / 10000" unfolding u_def using q2 by linarith+
  have Q: "128 * sin (2 * ?b) + 128 * sin ?b = 128 * (s1 * u)"
    unfolding sa u_def by (simp add: s1_def algebra_simps)
  have "(72986 / 100000) * (23668 / 10000) < s1 * u"
    using s1(1) u(1) by (intro mult_strict_mono) simp_all
  moreover have "s1 * u < (72987 / 100000) * (23676 / 10000)"
    using s1 u by (intro mult_strict_mono) simp_all
  ultimately have "221 \<le> 128 * (s1 * u)" "128 * (s1 * u) < 222"
    by linarith+
  then have "c_trunc (128 * sin (2 * ?b) + 128 * sin ?b) = 221"
    unfolding Q by (intro c_trunc_eq) simp_all
  then show "c_trunc (128 * sin (50265484 * (1 / 30720000)) + 128 * sin (25132742 * (1 / 30720000))) = 221"
    by (simp only: a(1,2))
qed

subsection \<open>The window and the waveform\<close>

lemma hw_formula:
  assumes "2 \<le> n" "length w = n" "j < n"
  shows "fill_win 0 n w ! j = 0.5 * (1 - cos (2 * pi * real j / real (n - 1)))"
proof -
  have "fill_win 0 n w ! j = win_hanning (int j) (int n)"
    using assms by (simp add: fill_win_all)
  also have "\<dots> = (1 - cos (2 * pi * real_of_int (int j) / real_of_int (int n - 1))) / 2"
    by (rule win_hanning_eq)
  also have "real_of_int (int n - 1) = real (n - 1)"
    using assms(1) by simp
  finally show ?thesis by simp
qed

lemma hw_ends:
  assumes "2 \<le> n" "length w = n"
  shows "fill_win 0 n w ! 0 = 0" "fill_win 0 n w ! (n - 1) = 0"
proof -
  have n2: "2 \<le> int n" using assms(1) by simp
  show "fill_win 0 n w ! 0 = 0"
    using assms by (simp add: fill_win_all hann_first)
  have "int (n - 1) = int n - 1" using assms(1) by simp
  moreover have "fill_win 0 n w ! (n - 1) = win_hanning (int (n - 1)) (int n)"
    using assms by (simp add: fill_win_all)
  ultimately show "fill_win 0 n w ! (n - 1) = 0"
    using hann_last [OF n2] by (simp only:)
qed

lemma hw_shape:
  assumes "2 \<le> n" "length w = n" "j < n"
  shows "0 \<le> fill_win 0 n w ! j" "fill_win 0 n w ! j \<le> 1"
    "fill_win 0 n w ! (n - 1 - j) = fill_win 0 n w ! j"
    "fill_win 0 n w ! j = 1 \<longleftrightarrow> 2 * j = n - 1"
proof -
  have n2: "2 \<le> int n" using assms(1) by simp
  have nth: "fill_win 0 n w ! k = win_hanning (int k) (int n)" if "k < n" for k
    using that assms(2) by (simp add: fill_win_all)
  show "0 \<le> fill_win 0 n w ! j" "fill_win 0 n w ! j \<le> 1"
    using nth [OF assms(3)] hann_bounds [of "int j" "int n"] by (simp_all only:)
  have m: "int (n - 1 - j) = int n - 1 - int j" using assms(3) by simp
  have "n - 1 - j < n" using assms(3) by simp
  then have "fill_win 0 n w ! (n - 1 - j) = win_hanning (int n - 1 - int j) (int n)"
    using nth [of "n - 1 - j"] m by (simp only:)
  also have "\<dots> = win_hanning (int j) (int n)" using n2 by (rule hann_sym)
  finally show "fill_win 0 n w ! (n - 1 - j) = fill_win 0 n w ! j"
    using nth [OF assms(3)] by (simp only:)
  have "win_hanning (int j) (int n) = 1 \<longleftrightarrow> 2 * int j = int n - 1"
    using assms(3) by (intro hann_one_iff [OF n2]) simp_all
  moreover have "2 * int j = int n - 1 \<longleftrightarrow> 2 * j = n - 1" using assms(1) by linarith
  ultimately show "fill_win 0 n w ! j = 1 \<longleftrightarrow> 2 * j = n - 1"
    using nth [OF assms(3)] by (simp only:)
qed

lemma hw_mono:
  assumes "2 \<le> n" "length w = n" "j \<le> k" "2 * k \<le> n - 1"
  shows "fill_win 0 n w ! j \<le> fill_win 0 n w ! k"
proof -
  have n2: "2 \<le> int n" using assms(1) by simp
  have nth: "fill_win 0 n w ! k = win_hanning (int k) (int n)" if "k < n" for k
    using that assms(2) by (simp add: fill_win_all)
  have k: "k < n" using assms(1,4) by linarith
  then have j: "j < n" using assms(3) by simp
  have "2 * int k \<le> int n - 1" using assms(1,4) by linarith
  moreover have "0 \<le> int j" "int j \<le> int k" using assms(3) by simp_all
  ultimately have "win_hanning (int j) (int n) \<le> win_hanning (int k) (int n)"
    by (intro hann_mono [OF n2])
  then show ?thesis using nth [OF j] nth [OF k] by (simp only:)
qed

text \<open>
  Claim C2, as the code has it. For every length \<open>n \<ge> 2\<close>, whatever the array held before,
  the loop leaves \<open>win[j] = 0.5 * (1 - cos (2 \<pi> j / (n - 1)))\<close> for every \<open>j < n\<close>; the first
  and the last value are 0, every value lies in \<open>[0, 1]\<close>, the window is symmetric,
  \<open>win[n - 1 - j] = win[j]\<close>, and does not decrease up to the midpoint; the value 1 is taken
  exactly where \<open>2 j = n - 1\<close>, that is at the single midpoint of an odd length and nowhere
  for an even length.
\<close>

theorem hann_window:
  assumes "2 \<le> n" "length w = n"
  shows "(\<forall>j<n. fill_win 0 n w ! j = 0.5 * (1 - cos (2 * pi * real j / real (n - 1))))
       \<and> fill_win 0 n w ! 0 = 0 \<and> fill_win 0 n w ! (n - 1) = 0
       \<and> (\<forall>j<n. 0 \<le> fill_win 0 n w ! j \<and> fill_win 0 n w ! j \<le> 1
               \<and> fill_win 0 n w ! (n - 1 - j) = fill_win 0 n w ! j
               \<and> (fill_win 0 n w ! j = 1 \<longleftrightarrow> 2 * j = n - 1))
       \<and> (\<forall>j k. j \<le> k \<and> 2 * k \<le> n - 1 \<longrightarrow> fill_win 0 n w ! j \<le> fill_win 0 n w ! k)"
proof (intro conjI allI impI)
  fix j assume "j < n"
  with assms show "fill_win 0 n w ! j = 0.5 * (1 - cos (2 * pi * real j / real (n - 1)))"
    by (rule hw_formula)
next
  from assms show "fill_win 0 n w ! 0 = 0" by (rule hw_ends)
next
  from assms show "fill_win 0 n w ! (n - 1) = 0" by (rule hw_ends)
next
  fix j assume "j < n"
  with assms show "0 \<le> fill_win 0 n w ! j" by (rule hw_shape)
next
  fix j assume "j < n"
  with assms show "fill_win 0 n w ! j \<le> 1" by (rule hw_shape)
next
  fix j assume "j < n"
  with assms show "fill_win 0 n w ! (n - 1 - j) = fill_win 0 n w ! j" by (rule hw_shape)
next
  fix j assume "j < n"
  with assms show "(fill_win 0 n w ! j = 1) = (2 * j = n - 1)" by (rule hw_shape)
next
  fix j k assume "j \<le> k \<and> 2 * k \<le> n - 1"
  then have "j \<le> k" "2 * k \<le> n - 1" by simp_all
  with assms show "fill_win 0 n w ! j \<le> fill_win 0 n w ! k" by (rule hw_mono)
qed

theorem hann_window_witness:
  "(2::nat) \<le> 3 \<and> length [7, 7, 7 :: real] = 3
   \<and> fill_win 0 3 [7, 7, 7] ! 0 = 0 \<and> fill_win 0 3 [7, 7, 7] ! 1 = 1
   \<and> fill_win 0 3 [7, 7, 7] ! 2 = 0"
proof -
  have h: "(2::nat) \<le> 3" "length [7, 7, 7 :: real] = 3" by simp_all
  note t = hann_window [OF h]
  have "fill_win 0 3 [7, 7, 7] ! 0 = 0" "fill_win 0 3 [7, 7, 7] ! 2 = 0"
    using t by simp_all
  moreover have "fill_win 0 3 [7, 7, 7] ! 1 = 1"
  proof -
    have "(1::nat) < 3" by simp
    moreover have "2 * (1::nat) = 3 - 1" by simp
    ultimately show ?thesis using t by blast
  qed
  ultimately show ?thesis by simp
qed

text \<open>
  Claim C2 as stated fails for even lengths. The window of length 2 is zero everywhere, so
  its maximum is 0; for the length 1024 of the program the two indices next to the
  midpoint, 511 and 512, carry the same value, which is below 1.
\<close>

theorem hann_even_length:
  "fill_win 0 2 [7, 7] = [0, 0]
   \<and> win_hanning 511 1024 = win_hanning 512 1024 \<and> win_hanning 512 1024 < 1"
proof -
  have a: "fill_win 0 2 [7, 7] = [0, 0]"
    by (simp add: fill_win.simps win_hanning_eq)
  have b: "win_hanning 511 1024 = win_hanning 512 1024"
    using hann_sym [of 1024 512] by simp
  have "win_hanning 511 1024 < 1"
    by (rule hann_below_one) simp_all
  then show ?thesis using a b by simp
qed

text \<open>
  Claim C4. For every time \<open>t\<close> the pair written is
  \<open>I = 128 cos (freq1 t) + 128 cos (freq2 t)\<close> and \<open>Q = 128 sin (freq1 t) + 128 sin (freq2 t)\<close>,
  each truncated towards zero to a signed 16-bit value (no wrap-around occurs, the sums lie
  in \<open>[-256, 256]\<close>). The amplitude is 128; \<open>freq1 = 50265484\<close> and \<open>freq2 = 25132742\<close> are
  \<open>2 \<pi> 8000000\<close> and \<open>2 \<pi> 4000000\<close> as stored in \<open>float\<close>, so the two tones lie at
  \<open>50265484 / (2 \<pi>)\<close> and \<open>25132742 / (2 \<pi>)\<close> Hz, a quarter of a Hertz above 8 MHz and an
  eighth above 4 MHz. Every pair the TX loop writes is this pair for the time the loop has
  reached.
\<close>

theorem synth_two_tone:
  "sint (fst (synth t)) = c_trunc (128 * cos (50265484 * t) + 128 * cos (25132742 * t))
   \<and> sint (snd (synth t)) = c_trunc (128 * sin (50265484 * t) + 128 * sin (25132742 * t))
   \<and> to_float (2 * pi * real_of_int FREQ1) = 50265484
   \<and> to_float (2 * pi * real_of_int FREQ2) = 25132742
   \<and> FREQ1 = 8000000 \<and> FREQ2 = 4000000
   \<and> (\<forall>p\<in>set (tx_fill slots i). snd p = synth (fst p))"
proof -
  have "sint (fst (synth t)) = c_trunc (128 * cos (50265484 * t) + 128 * cos (25132742 * t))"
    by (simp add: synth_def Let_def to_float_freq1 to_float_freq2 sint_to_short two_tone_bound)
  moreover have
    "sint (snd (synth t)) = c_trunc (128 * sin (50265484 * t) + 128 * sin (25132742 * t))"
    by (simp add: synth_def Let_def to_float_freq1 to_float_freq2 sint_to_short two_tone_bound)
  moreover have "\<forall>p\<in>set (tx_fill slots i). snd p = synth (fst p)"
    by (induction slots arbitrary: i) simp_all
  moreover have "FREQ1 = 8000000" "FREQ2 = 4000000"
    by (simp_all add: FREQ1_def FREQ2_def MHZ_8 MHZ_4)
  ultimately show ?thesis using to_float_freq1 to_float_freq2 by blast
qed

text \<open>
  The first pair of every outgoing block, written for the time \<open>1 / 30720000\<close>, is
  \<open>(79, 221)\<close>.
\<close>

theorem synth_two_tone_witness:
  "sint (fst (synth (1 / 30720000))) = 79 \<and> sint (snd (synth (1 / 30720000))) = 221
   \<and> snd (hd (tx_fill 1 (1 / 30720000))) = synth (fst (hd (tx_fill 1 (1 / 30720000))))
   \<and> fst (hd (tx_fill 1 (1 / 30720000))) = 1 / 30720000"
proof -
  note t = synth_two_tone [of "1 / 30720000" 1 "1 / 30720000"]
  have "sint (fst (synth (1 / 30720000))) =
      c_trunc (128 * cos (50265484 * (1 / 30720000)) + 128 * cos (25132742 * (1 / 30720000)))"
    using t by (elim conjE)
  then have I: "sint (fst (synth (1 / 30720000))) = 79"
    by (simp only: first_pair_values)
  have "sint (snd (synth (1 / 30720000))) =
      c_trunc (128 * sin (50265484 * (1 / 30720000)) + 128 * sin (25132742 * (1 / 30720000)))"
    using t by (elim conjE)
  then have Q: "sint (snd (synth (1 / 30720000))) = 221"
    by (simp only: first_pair_values)
  have "hd (tx_fill 1 (1 / 30720000)) \<in> set (tx_fill 1 (1 / 30720000))" by simp
  then have L: "snd (hd (tx_fill 1 (1 / 30720000))) = synth (fst (hd (tx_fill 1 (1 / 30720000))))"
    using t by blast
  have F: "fst (hd (tx_fill 1 (1 / 30720000))) = 1 / 30720000" by simp
  from I Q L F show ?thesis by (intro conjI)
qed

subsection \<open>Runs of several iterations\<close>

lemma concat_replicate_snoc:
  "concat (replicate n xs) @ xs = concat (replicate (Suc n) xs)"
  by (induction n) simp_all

lemma run_events:
  "events (run ie es) = init_events @ concat (replicate (length es) cycle_events)"
proof (induction es rule: rev_induct)
  case Nil
  show ?case by simp
next
  case (snoc e es)
  have "events (run ie (es @ [e])) = events (run ie es) @ cycle_events"
    by (simp add: body_events)
  also have "\<dots> = init_events @ concat (replicate (length es) cycle_events) @ cycle_events"
    using snoc by simp
  also have "concat (replicate (length es) cycle_events) @ cycle_events =
      concat (replicate (length (es @ [e])) cycle_events)"
    by (simp only: concat_replicate_snoc length_append_singleton)
  finally show ?case by (simp only: append_assoc)
qed

lemma run_handles:
  "ctx (run ie es)" "rxbuf (run ie es)" "txbuf (run ie es)"
  "rx0_i (run ie es)" "rx0_q (run ie es)" "tx0_i (run ie es)" "tx0_q (run ie es)"
  by (induction es rule: rev_induct) (simp_all add: body_handles)

lemma run_stop: "stop (run ie es) = sigint_at_init ie"
  by (induction es rule: rev_induct) simp_all

lemma tx_fill_times:
  "map fst (tx_fill slots i) = map (\<lambda>k. i + real k / real_of_int (fs_hz txcfg)) [0..<slots]"
  by (rule nth_equalityI) (simp_all add: tx_fill_length tx_fill_nth)

lemma block_times:
  "map fst (tx_fill slots (1 / real_of_int (fs_hz txcfg))) =
     map (\<lambda>k. real (k + 1) / 30720000) [0..<slots]"
  unfolding tx_fill_times by (simp add: fs_hz_txcfg add_divide_distrib)

lemma run_synth_times:
  "synth_times (run ie es) =
     concat (map (\<lambda>e. map (\<lambda>k. real (k + 1) / 30720000) [0..<tx_slots e]) es)"
proof (induction es rule: rev_induct)
  case Nil
  show ?case by simp
next
  case (snoc e es)
  have "synth_times (run ie (es @ [e])) =
      synth_times (run ie es) @ map fst (tx_fill (tx_slots e) (1 / real_of_int (fs_hz txcfg)))"
    by (simp add: body_synth_times body_tx_block)
  then show ?case using snoc by (simp add: block_times)
qed

lemma sdiv_block:
  assumes "0 < w"
  shows "(int b * w) sdiv w = int b"
proof (cases "b = 0")
  case True
  then show ?thesis by (simp add: signed_divide_int_def)
next
  case False
  then have "0 < int b * w" using assms by simp
  then show ?thesis using assms by (simp add: signed_divide_int_def)
qed

lemma count_samples_block:
  assumes "0 < sint sz" "sint nbytes = int b * sint sz"
  shows "count_samples n nbytes sz = n + of_nat b"
  using assms by (simp add: count_samples_def sdiv_block)

lemma run_nrx:
  assumes "0 < sint (rx_sample_size ie)"
    and "\<forall>c\<in>set es. sint (refill_ret c) = int rx_blk * sint (rx_sample_size ie)"
  shows "nrx (run ie es) = of_nat (length es * rx_blk)"
  using assms(2)
proof (induction es rule: rev_induct)
  case Nil
  show ?case by simp
next
  case (snoc e es)
  then have ih: "nrx (run ie es) = of_nat (length es * rx_blk)" by simp
  have e: "sint (refill_ret e) = int rx_blk * sint (rx_sample_size ie)"
    using snoc.prems by simp
  have "nrx (run ie (es @ [e])) = nrx (run ie es) + of_nat rx_blk"
    using count_samples_block [OF assms(1) e] by (simp add: body_counters)
  then show ?case using ih by (simp add: algebra_simps)
qed

lemma run_ntx:
  assumes "0 < sint (tx_sample_size ie)"
    and "\<forall>c\<in>set es. sint (push_ret c) = int tx_blk * sint (tx_sample_size ie)"
  shows "ntx (run ie es) = of_nat (length es * tx_blk)"
  using assms(2)
proof (induction es rule: rev_induct)
  case Nil
  show ?case by simp
next
  case (snoc e es)
  then have ih: "ntx (run ie es) = of_nat (length es * tx_blk)" by simp
  have e: "sint (push_ret e) = int tx_blk * sint (tx_sample_size ie)"
    using snoc.prems by simp
  have "ntx (run ie (es @ [e])) = ntx (run ie es) + of_nat tx_blk"
    using count_samples_block [OF assms(1) e] by (simp add: body_counters)
  then show ?case using ih by (simp add: algebra_simps)
qed

lemma unat_counter:
  assumes "k < 2 ^ 64"
  shows "unat (of_nat k :: 64 word) = k"
  using assms by (simp add: unat_of_nat)

subsection \<open>The TX time and the sample counters\<close>

lemma silent_cycle_fields:
  "push_ret silent_cycle = 4194304" "refill_ret silent_cycle = 4194304"
  "tx_slots silent_cycle = buffer_size"
  by (simp_all add: silent_cycle_def)

lemma bench_sample_sizes:
  "rx_sample_size bench_init = 4" "tx_sample_size bench_init = 4"
  by (simp_all add: bench_init_def)

text \<open>
  Claim C3, as the code has it. In every iteration the time used for pair \<open>k\<close> of the
  outgoing block (counted from 0) is \<open>(k + 1) / 30720000\<close>: inside a block the time starts
  at \<open>1 / fs_hz\<close> and advances by \<open>1 / fs_hz\<close> per pair; every iteration starts again from
  \<open>1 / fs_hz\<close>, so the times of a run are the times of its blocks one after the other.
\<close>

theorem tx_time_per_block:
  assumes "init_ok ie" "\<not> sigint_at_init ie"
    and "rx_sample_size ie \<noteq> 0" "tx_sample_size ie \<noteq> 0"
    and "\<forall>c\<in>set es. transfer_ok c \<and> \<not> sigint c"
  shows "synth_times (state_of (main ie es)) =
           concat (map (\<lambda>e. map (\<lambda>k. real (k + 1) / 30720000) [0..<tx_slots e]) es)
       \<and> fs_hz txcfg = 30720000"
proof -
  have "main ie es = Streaming (run ie es)"
    using main_ok [of ie es] assms by simp
  then show ?thesis by (simp add: run_synth_times fs_hz_txcfg)
qed

theorem tx_time_per_block_witness:
  "init_ok bench_init \<and> \<not> sigint_at_init bench_init
   \<and> rx_sample_size bench_init \<noteq> 0 \<and> tx_sample_size bench_init \<noteq> 0
   \<and> transfer_ok silent_cycle \<and> \<not> sigint silent_cycle
   \<and> synth_times (state_of (main bench_init [silent_cycle])) =
       concat (map (\<lambda>e. map (\<lambda>k. real (k + 1) / 30720000) [0..<tx_slots e]) [silent_cycle])"
proof -
  have h: "\<forall>c\<in>set [silent_cycle]. transfer_ok c \<and> \<not> sigint c"
    using silent_cycle_ok by simp
  from tx_time_per_block [OF bench_init_ok bench_init_fields h]
  show ?thesis
    using bench_init_ok bench_init_fields silent_cycle_ok by blast
qed

text \<open>
  Claim C3 as stated fails: on the test bench, over two iterations with blocks of
  \<open>buffer_size\<close> pairs, the last time of the first block is \<open>buffer_size / 30720000\<close> and the
  first time of the second block is \<open>1 / 30720000\<close> again, which is smaller.
\<close>

theorem tx_time_restarts:
  "synth_times (state_of (main bench_init [silent_cycle, silent_cycle])) ! (buffer_size - 1)
     = real buffer_size / 30720000
   \<and> synth_times (state_of (main bench_init [silent_cycle, silent_cycle])) ! buffer_size
     = 1 / 30720000
   \<and> synth_times (state_of (main bench_init [silent_cycle, silent_cycle])) ! buffer_size
     < synth_times (state_of (main bench_init [silent_cycle, silent_cycle])) ! (buffer_size - 1)"
proof -
  let ?blk = "map (\<lambda>k. real (k + 1) / 30720000) [0..<buffer_size]"
  have pos: "0 < buffer_size" "1 < buffer_size" by (simp_all add: buffer_size_def)
  have h: "\<forall>c\<in>set [silent_cycle, silent_cycle]. transfer_ok c \<and> \<not> sigint c"
    using silent_cycle_ok by simp
  have "main bench_init [silent_cycle, silent_cycle] = Streaming (run bench_init [silent_cycle, silent_cycle])"
    using main_ok [of bench_init "[silent_cycle, silent_cycle]"] bench_init_ok bench_init_fields h
    by blast
  then have ts: "synth_times (state_of (main bench_init [silent_cycle, silent_cycle])) = ?blk @ ?blk"
    by (simp add: run_synth_times silent_cycle_fields del: foldl_Cons)
  have len: "length ?blk = buffer_size" by simp
  have a: "(?blk @ ?blk) ! (buffer_size - 1) = real buffer_size / 30720000"
  proof -
    have "(?blk @ ?blk) ! (buffer_size - 1) = ?blk ! (buffer_size - 1)"
      using pos len by (simp only: nth_append) simp
    also have "\<dots> = real (buffer_size - 1 + 1) / 30720000"
      using pos by (simp only: nth_map length_upt nth_upt) simp
    finally show ?thesis using pos by simp
  qed
  have b: "(?blk @ ?blk) ! buffer_size = 1 / 30720000"
  proof -
    have "(?blk @ ?blk) ! buffer_size = ?blk ! 0"
      using nth_append_length_plus [of ?blk ?blk 0] len by simp
    then show ?thesis using pos by simp
  qed
  have "(1::real) / 30720000 < real buffer_size / 30720000"
    using pos by simp
  then show ?thesis unfolding ts using a b by (simp only:)
qed

text \<open>
  Claim C5. While every push and refill succeeds, every iteration adds to the RX counter the
  bytes refilled divided by the RX sample size and to the TX counter the bytes pushed divided
  by the TX sample size. When every refill transfers a whole block of \<open>rx_blk\<close> samples, the RX
  counter after \<open>N\<close> completed iterations is \<open>N * rx_blk\<close> in the arithmetic of \<open>size_t\<close>; as
  long as this total fits into \<open>size_t\<close> it is the number itself, and the counter after a part
  of the iterations is not above the counter after all of them. The same holds for the TX
  counter and pushes of \<open>tx_blk\<close> samples.
\<close>

theorem sample_counters:
  assumes "init_ok ie" "\<not> sigint_at_init ie"
    and "0 < sint (rx_sample_size ie)" "0 < sint (tx_sample_size ie)"
    and "\<forall>c\<in>set (es1 @ es2). transfer_ok c \<and> \<not> sigint c"
  shows "(\<forall>e. es2 = [e] \<longrightarrow>
            nrx (state_of (main ie (es1 @ es2))) =
              nrx (state_of (main ie es1))
                + word_of_int (sint (refill_ret e) sdiv sint (rx_sample_size ie))
          \<and> ntx (state_of (main ie (es1 @ es2))) =
              ntx (state_of (main ie es1))
                + word_of_int (sint (push_ret e) sdiv sint (tx_sample_size ie)))
       \<and> ((\<forall>c\<in>set (es1 @ es2). sint (refill_ret c) = int rx_blk * sint (rx_sample_size ie)) \<longrightarrow>
            nrx (state_of (main ie (es1 @ es2))) = of_nat (length (es1 @ es2) * rx_blk)
          \<and> (length (es1 @ es2) * rx_blk < 2 ^ 64 \<longrightarrow>
               unat (nrx (state_of (main ie (es1 @ es2)))) = length (es1 @ es2) * rx_blk
             \<and> unat (nrx (state_of (main ie es1)))
                 \<le> unat (nrx (state_of (main ie (es1 @ es2))))))
       \<and> ((\<forall>c\<in>set (es1 @ es2). sint (push_ret c) = int tx_blk * sint (tx_sample_size ie)) \<longrightarrow>
            ntx (state_of (main ie (es1 @ es2))) = of_nat (length (es1 @ es2) * tx_blk)
          \<and> (length (es1 @ es2) * tx_blk < 2 ^ 64 \<longrightarrow>
               unat (ntx (state_of (main ie (es1 @ es2)))) = length (es1 @ es2) * tx_blk
             \<and> unat (ntx (state_of (main ie es1)))
                 \<le> unat (ntx (state_of (main ie (es1 @ es2))))))"
proof -
  have sz: "rx_sample_size ie \<noteq> 0" "tx_sample_size ie \<noteq> 0"
    using assms(3,4) by auto
  have m: "state_of (main ie es) = run ie es" if "set es \<subseteq> set (es1 @ es2)" for es
  proof -
    have "\<forall>c\<in>set es. transfer_ok c \<and> \<not> sigint c" using assms(5) that by blast
    then show ?thesis using main_ok [of ie es] assms(1,2) sz by simp
  qed
  have all: "set (es1 @ es2) \<subseteq> set (es1 @ es2)" and part: "set es1 \<subseteq> set (es1 @ es2)"
    by simp_all
  have le: "length es1 * b \<le> length (es1 @ es2) * b" for b
    by simp
  have I: "nrx (state_of (main ie (es1 @ es2))) =
              nrx (state_of (main ie es1))
                + word_of_int (sint (refill_ret e) sdiv sint (rx_sample_size ie))
          \<and> ntx (state_of (main ie (es1 @ es2))) =
              ntx (state_of (main ie es1))
                + word_of_int (sint (push_ret e) sdiv sint (tx_sample_size ie))"
    if "es2 = [e]" for e
  proof -
    have "state_of (main ie (es1 @ es2)) = body ie e (run ie es1)"
      using m [OF all] that by simp
    then show ?thesis
      unfolding m [OF part] by (simp add: body_counters count_samples_def)
  qed
  have R: "nrx (state_of (main ie (es1 @ es2))) = of_nat (length (es1 @ es2) * rx_blk)
          \<and> (length (es1 @ es2) * rx_blk < 2 ^ 64 \<longrightarrow>
               unat (nrx (state_of (main ie (es1 @ es2)))) = length (es1 @ es2) * rx_blk
             \<and> unat (nrx (state_of (main ie es1)))
                 \<le> unat (nrx (state_of (main ie (es1 @ es2)))))"
    if blk: "\<forall>c\<in>set (es1 @ es2). sint (refill_ret c) = int rx_blk * sint (rx_sample_size ie)"
  proof -
    have blk1: "\<forall>c\<in>set es1. sint (refill_ret c) = int rx_blk * sint (rx_sample_size ie)"
      using blk by simp
    have A: "nrx (state_of (main ie (es1 @ es2))) = of_nat (length (es1 @ es2) * rx_blk)"
      unfolding m [OF all] using assms(3) blk by (rule run_nrx)
    have A1: "nrx (state_of (main ie es1)) = of_nat (length es1 * rx_blk)"
      unfolding m [OF part] using assms(3) blk1 by (rule run_nrx)
    have "unat (nrx (state_of (main ie (es1 @ es2)))) = length (es1 @ es2) * rx_blk
             \<and> unat (nrx (state_of (main ie es1)))
                 \<le> unat (nrx (state_of (main ie (es1 @ es2))))"
      if b: "length (es1 @ es2) * rx_blk < 2 ^ 64"
    proof -
      have b1: "length es1 * rx_blk < 2 ^ 64" using le [of rx_blk] b by linarith
      show ?thesis
        unfolding A A1 unat_counter [OF b] unat_counter [OF b1] using le [of rx_blk]
        by (simp only:)
    qed
    with A show ?thesis by blast
  qed
  have T: "ntx (state_of (main ie (es1 @ es2))) = of_nat (length (es1 @ es2) * tx_blk)
          \<and> (length (es1 @ es2) * tx_blk < 2 ^ 64 \<longrightarrow>
               unat (ntx (state_of (main ie (es1 @ es2)))) = length (es1 @ es2) * tx_blk
             \<and> unat (ntx (state_of (main ie es1)))
                 \<le> unat (ntx (state_of (main ie (es1 @ es2)))))"
    if blk: "\<forall>c\<in>set (es1 @ es2). sint (push_ret c) = int tx_blk * sint (tx_sample_size ie)"
  proof -
    have blk1: "\<forall>c\<in>set es1. sint (push_ret c) = int tx_blk * sint (tx_sample_size ie)"
      using blk by simp
    have A: "ntx (state_of (main ie (es1 @ es2))) = of_nat (length (es1 @ es2) * tx_blk)"
      unfolding m [OF all] using assms(4) blk by (rule run_ntx)
    have A1: "ntx (state_of (main ie es1)) = of_nat (length es1 * tx_blk)"
      unfolding m [OF part] using assms(4) blk1 by (rule run_ntx)
    have "unat (ntx (state_of (main ie (es1 @ es2)))) = length (es1 @ es2) * tx_blk
             \<and> unat (ntx (state_of (main ie es1)))
                 \<le> unat (ntx (state_of (main ie (es1 @ es2))))"
      if b: "length (es1 @ es2) * tx_blk < 2 ^ 64"
    proof -
      have b1: "length es1 * tx_blk < 2 ^ 64" using le [of tx_blk] b by linarith
      show ?thesis
        unfolding A A1 unat_counter [OF b] unat_counter [OF b1] using le [of tx_blk]
        by (simp only:)
    qed
    with A show ?thesis by blast
  qed
  from I R T show ?thesis by blast
qed

theorem sample_counters_witness:
  "init_ok bench_init \<and> \<not> sigint_at_init bench_init
   \<and> 0 < sint (rx_sample_size bench_init) \<and> 0 < sint (tx_sample_size bench_init)
   \<and> transfer_ok silent_cycle \<and> \<not> sigint silent_cycle
   \<and> sint (refill_ret silent_cycle) = int buffer_size * sint (rx_sample_size bench_init)
   \<and> length ([silent_cycle] @ [silent_cycle]) * buffer_size < 2 ^ 64
   \<and> unat (nrx (state_of (main bench_init ([silent_cycle] @ [silent_cycle]))))
       = length ([silent_cycle] @ [silent_cycle]) * buffer_size
   \<and> unat (nrx (state_of (main bench_init [silent_cycle])))
       \<le> unat (nrx (state_of (main bench_init ([silent_cycle] @ [silent_cycle]))))"
proof -
  have s: "0 < sint (rx_sample_size bench_init)" "0 < sint (tx_sample_size bench_init)"
    by (simp_all add: bench_sample_sizes)
  have r: "sint (refill_ret silent_cycle) = int buffer_size * sint (rx_sample_size bench_init)"
    by (simp add: silent_cycle_fields bench_sample_sizes buffer_size_def)
  have h: "\<forall>c\<in>set ([silent_cycle] @ [silent_cycle]). transfer_ok c \<and> \<not> sigint c"
    using silent_cycle_ok by simp
  have k: "\<forall>c\<in>set ([silent_cycle] @ [silent_cycle]).
      sint (refill_ret c) = int buffer_size * sint (rx_sample_size bench_init)"
    using r by simp
  have b: "length ([silent_cycle] @ [silent_cycle]) * buffer_size < 2 ^ 64"
    by (simp add: buffer_size_def)
  from sample_counters [OF bench_init_ok bench_init_fields(1) s h, of buffer_size] k b
  have "unat (nrx (state_of (main bench_init ([silent_cycle] @ [silent_cycle]))))
       = length ([silent_cycle] @ [silent_cycle]) * buffer_size
   \<and> unat (nrx (state_of (main bench_init [silent_cycle])))
       \<le> unat (nrx (state_of (main bench_init ([silent_cycle] @ [silent_cycle]))))"
    by blast
  then show ?thesis
    using bench_init_ok bench_init_fields(1) s silent_cycle_ok r b by blast
qed

subsection \<open>How a run ends\<close>

lemma andthen_Go:
  "andthen m f = Go y st' \<longleftrightarrow> (\<exists>x st. m = Go x st \<and> f x st = Go y st')"
  by (cases m) (simp_all add: andthen_def)

lemma andthen_Halt:
  "andthen m f = Halt c oc st' \<longleftrightarrow>
     m = Halt c oc st' \<or> (\<exists>x st. m = Go x st \<and> f x st = Halt c oc st')"
  by (cases m) (auto simp: andthen_def)

lemma ASSERT_Go: "ASSERT b st = Go x st' \<longleftrightarrow> b \<and> st' = st"
  by (auto simp: ASSERT_def)

lemma ASSERT_Halt: "ASSERT b st = Halt c oc st' \<longleftrightarrow> \<not> b \<and> c = Assert_failed \<and> oc = Abort \<and> st' = st"
  by (auto simp: ASSERT_def)

lemma do_shutdown_eq: "do_shutdown c st = Halt c (Exit 0) (emit (shutdown_events st) st)"
  by (simp add: do_shutdown_def shutdown_def)

lemma errchk_Go: "errchk v st = Go x st' \<longleftrightarrow> 0 \<le> v \<and> st' = st"
  by (auto simp: errchk_def do_shutdown_eq)

lemma errchk_Halt:
  "errchk v st = Halt c oc st' \<longleftrightarrow>
     v < 0 \<and> c = Attr_write_error \<and> oc = Exit 0 \<and> st' = emit (shutdown_events st) st"
  by (auto simp: errchk_def do_shutdown_eq)

lemma shutdown_events_emit [simp]: "shutdown_events (emit evs st) = shutdown_events st"
  by (simp add: shutdown_events_def emit_def)

lemma events_emit [simp]: "events (emit evs st) = events st @ evs"
  by (simp add: emit_def)

lemma release_shutdown_events [simp]:
  "filter transport_release (shutdown_events st) = shutdown_events st"
  by (simp add: shutdown_events_def)

text \<open>
  A state in which nothing has been released; and what holds of a step that starts from
  such a state.
\<close>

lemma cfg_Go:
  "cfg_ad9361_streaming_ch phy e st = Go b st' \<Longrightarrow> phy \<and> st' = st \<and> (b \<longrightarrow> cfg_ok e)"
  by (auto simp: cfg_ad9361_streaming_ch_def andthen_Go ASSERT_Go errchk_Go cfg_ok_def
      split: if_splits)

lemma cfg_Halt:
  "cfg_ad9361_streaming_ch phy e st = Halt c oc st' \<Longrightarrow>
     (c = Assert_failed \<and> oc = Abort \<and> st' = st) \<or>
     (c = Attr_write_error \<and> oc = Exit 0 \<and> st' = emit (shutdown_events st) st)"
  by (auto simp: cfg_ad9361_streaming_ch_def andthen_Halt ASSERT_Go ASSERT_Halt errchk_Go
      errchk_Halt split: if_splits)

lemma acquire_context_Go:
  "acquire_context ie st = Go x st' \<Longrightarrow>
     context_created ie \<and> 0 < devices_count ie \<and> tx_dev_found ie \<and> rx_dev_found ie \<and>
     st' = emit [Create_context] (st\<lparr>ctx := True\<rparr>)"
  by (auto simp: acquire_context_def Let_def andthen_Go ASSERT_Go emit_def)

lemma acquire_context_Halt:
  "acquire_context ie st = Halt c oc st' \<Longrightarrow>
     c = Assert_failed \<and> oc = Abort \<and>
     filter transport_release (events st') = filter transport_release (events st)"
  by (auto simp: acquire_context_def Let_def andthen_Halt ASSERT_Go ASSERT_Halt emit_def)

lemma configure_streaming_Go:
  "configure_streaming ie st = Go x st' \<Longrightarrow>
     phy_dev_found ie \<and> cfg_ok (rx_cfg_env ie) \<and> cfg_ok (tx_cfg_env ie) \<and> st' = st"
  by (auto simp: configure_streaming_def andthen_Go ASSERT_Go dest!: cfg_Go)

lemma configure_streaming_Halt:
  "configure_streaming ie st = Halt c oc st' \<Longrightarrow>
     (c = Assert_failed \<and> oc = Abort \<and> st' = st) \<or>
     (c = Attr_write_error \<and> oc = Exit 0 \<and> st' = emit (shutdown_events st) st)"
  by (auto simp: configure_streaming_def andthen_Halt ASSERT_Go ASSERT_Halt
      dest!: cfg_Go cfg_Halt)

lemma init_channels_Go:
  "init_channels ie st = Go x st' \<Longrightarrow>
     rx0_i_found ie \<and> rx0_q_found ie \<and> tx0_i_found ie \<and> tx0_q_found ie \<and>
     st' = emit [Channel_enable Rx0_i, Channel_enable Rx0_q,
                 Channel_enable Tx0_i, Channel_enable Tx0_q]
             (st\<lparr>rx0_i := True, rx0_q := True, tx0_i := True, tx0_q := True\<rparr>)"
  by (auto simp: init_channels_def andthen_Go ASSERT_Go)

lemma init_channels_Halt:
  "init_channels ie st = Halt c oc st' \<Longrightarrow>
     c = Assert_failed \<and> oc = Abort \<and> events st' = events st"
  by (auto simp: init_channels_def andthen_Halt ASSERT_Go ASSERT_Halt)

lemma create_buffers_Go:
  "create_buffers ie st = Go x st' \<Longrightarrow>
     rxbuf_created ie \<and> txbuf_created ie \<and>
     st' = emit [Create_buffer RX, Create_buffer TX] (st\<lparr>rxbuf := True, txbuf := True\<rparr>)"
  by (auto simp: create_buffers_def Let_def do_shutdown_eq emit_def split: if_splits)

lemma create_buffers_Halt:
  "create_buffers ie st = Halt c oc st' \<Longrightarrow>
     c = Buffer_create_error \<and> oc = Exit 0 \<and>
     filter transport_release (events st') =
       filter transport_release (events st) @ shutdown_events st'"
  by (auto simp: create_buffers_def Let_def do_shutdown_eq split: if_splits)

lemma main_init_Go:
  assumes "main_init ie = Go x st"
  shows "init_ok ie"
  using assms
  by (auto simp: main_init_def andthen_Go init_ok_def
      dest!: acquire_context_Go configure_streaming_Go init_channels_Go create_buffers_Go)

lemma main_init_Halt:
  assumes "main_init ie = Halt c oc st"
  shows "(c = Assert_failed \<and> oc = Abort \<and> filter transport_release (events st) = []) \<or>
         ((c = Attr_write_error \<or> c = Buffer_create_error) \<and> oc = Exit 0 \<and>
          filter transport_release (events st) = shutdown_events st)"
proof -
  have init: "filter transport_release (events initial_state) = []"
    by (simp add: initial_state_def)
  from assms consider
      (a) "acquire_context ie initial_state = Halt c oc st"
    | (b) s1 where "acquire_context ie initial_state = Go () s1"
        "configure_streaming ie s1 = Halt c oc st"
    | (c) s1 s2 where "acquire_context ie initial_state = Go () s1"
        "configure_streaming ie s1 = Go () s2" "init_channels ie s2 = Halt c oc st"
    | (d) s1 s2 s3 where "acquire_context ie initial_state = Go () s1"
        "configure_streaming ie s1 = Go () s2" "init_channels ie s2 = Go () s3"
        "create_buffers ie s3 = Halt c oc st"
    by (auto simp: main_init_def andthen_Halt configure_fft_def)
  then show ?thesis
  proof cases
    case a
    then show ?thesis using acquire_context_Halt [OF a] init by simp
  next
    case b
    have s1: "filter transport_release (events s1) = []"
      using acquire_context_Go [OF b(1)] init by simp
    from configure_streaming_Halt [OF b(2)] show ?thesis using s1 by auto
  next
    case c
    have s1: "filter transport_release (events s1) = []"
      using acquire_context_Go [OF c(1)] init by simp
    then have "filter transport_release (events s2) = []"
      using configure_streaming_Go [OF c(2)] by simp
    then show ?thesis using init_channels_Halt [OF c(3)] by simp
  next
    case d
    have s1: "filter transport_release (events s1) = []"
      using acquire_context_Go [OF d(1)] init by simp
    then have "filter transport_release (events s2) = []"
      using configure_streaming_Go [OF d(2)] by simp
    then have "filter transport_release (events s3) = []"
      using init_channels_Go [OF d(3)] by simp
    then show ?thesis using create_buffers_Halt [OF d(4)] by simp
  qed
qed

lemma cycle_Go_iff:
  "cycle ie e st = Go x st' \<longleftrightarrow>
     transfer_ok e \<and> rx_sample_size ie \<noteq> 0 \<and> tx_sample_size ie \<noteq> 0 \<and>
     st' = (if sigint e then handle_sig (body ie e st) else body ie e st)"
  by (auto simp: cycle_def Let_def transfer_ok_def do_shutdown_eq)

lemma shutdown_events_rx_analysis [simp]: "shutdown_events (rx_analysis e st) = shutdown_events st"
  by (simp add: shutdown_events_def rx_analysis_def emit_def Let_def)

lemma events_rx_analysis [simp]: "events (rx_analysis e st) = events st @ [Fftw_execute]"
  by (simp add: rx_analysis_def emit_def Let_def)

lemma cycle_Halt:
  "cycle ie e st = Halt c oc st' \<Longrightarrow>
     (c = Push_error \<and> oc = Exit 0 \<and> sint (push_ret e) < 0 \<and>
        st' = emit (shutdown_events st) (emit [Buffer_push] st)) \<or>
     (c = Refill_error \<and> oc = Exit 0 \<and> sint (refill_ret e) < 0 \<and>
        st' = emit (shutdown_events st) (emit [Buffer_refill] (emit [Buffer_push] st))) \<or>
     (c = Div_by_zero \<and> oc = Sigfpe \<and> (rx_sample_size ie = 0 \<or> tx_sample_size ie = 0) \<and>
        events st' = events st @ [Buffer_push, Buffer_refill, Fftw_execute])"
  by (auto simp: cycle_def Let_def do_shutdown_eq split: if_splits)

lemma finish_eq:
  "finish st = Terminated Cancelled (Exit 0) (emit (shutdown_events st) (emit finish_events st))"
  by (simp add: finish_def shutdown_def)

lemma shutdown_events_body [simp]: "shutdown_events (body ie e st) = shutdown_events st"
  by (simp add: shutdown_events_def body_handles)

lemma shutdown_events_handle_sig [simp]: "shutdown_events (handle_sig st) = shutdown_events st"
  by (simp add: shutdown_events_def handle_sig_def)

lemma events_handle_sig [simp]: "events (handle_sig st) = events st"
  by (simp add: handle_sig_def)

lemma release_body [simp]:
  "filter transport_release (events (body ie e st)) = filter transport_release (events st)"
  by (simp add: body_events)

text \<open>How the loop can end, from a state in which nothing has been released.\<close>

lemma streaming_Terminated:
  assumes "streaming ie es st = Terminated c oc st'"
    and "filter transport_release (events st) = []"
  shows "((c = Cancelled \<and> (stop st \<or> (\<exists>e\<in>set es. sigint e))) \<or>
          (c = Push_error \<and> (\<exists>e\<in>set es. sint (push_ret e) < 0)) \<or>
          (c = Refill_error \<and> (\<exists>e\<in>set es. sint (refill_ret e) < 0))) \<and>
         oc = Exit 0 \<and>
         filter transport_release (events st') = shutdown_events st \<and>
         shutdown_events st' = shutdown_events st
       \<or> c = Div_by_zero \<and> oc = Sigfpe \<and> (rx_sample_size ie = 0 \<or> tx_sample_size ie = 0) \<and>
         filter transport_release (events st') = []"
  using assms
proof (induction es arbitrary: st)
  case Nil
  then show ?case by (auto simp: finish_eq split: if_splits)
next
  case (Cons e es)
  show ?case
  proof (cases "stop st")
    case True
    then show ?thesis using Cons.prems by (auto simp: finish_eq)
  next
    case False
    show ?thesis
    proof (cases "cycle ie e st")
      case (Halt c' oc' s')
      then have eq: "c' = c" "oc' = oc" "s' = st'" using Cons.prems(1) False by simp_all
      from cycle_Halt [OF Halt] show ?thesis
        unfolding eq using Cons.prems(2) by auto
    next
      case (Go x s')
      then have rec: "streaming ie es s' = Terminated c oc st'"
        using Cons.prems(1) False by simp
      have s': "s' = (if sigint e then handle_sig (body ie e st) else body ie e st)"
        using Go by (simp add: cycle_Go_iff)
      have clean: "filter transport_release (events s') = []"
        using s' Cons.prems(2) by simp
      have sd: "shutdown_events s' = shutdown_events st" using s' by simp
      have st: "stop s' \<longrightarrow> sigint e"
        using s' False by (simp add: handle_sig_def)
      from Cons.IH [OF rec clean] show ?thesis
        unfolding sd using st by auto
    qed
  qed
qed

lemma main_Terminated:
  assumes "main ie es = Terminated c oc st"
  shows "(c = Assert_failed \<and> oc = Abort \<and> \<not> init_ok ie \<and>
            filter transport_release (events st) = [])
       \<or> ((c = Attr_write_error \<or> c = Buffer_create_error) \<and> oc = Exit 0 \<and> \<not> init_ok ie \<and>
            filter transport_release (events st) = shutdown_events st)
       \<or> (((c = Cancelled \<and> (sigint_at_init ie \<or> (\<exists>e\<in>set es. sigint e))) \<or>
            (c = Push_error \<and> (\<exists>e\<in>set es. sint (push_ret e) < 0)) \<or>
            (c = Refill_error \<and> (\<exists>e\<in>set es. sint (refill_ret e) < 0))) \<and>
           oc = Exit 0 \<and> init_ok ie \<and>
           filter transport_release (events st) = shutdown_sequence \<and>
           shutdown_events st = shutdown_sequence)
       \<or> (c = Div_by_zero \<and> oc = Sigfpe \<and> (rx_sample_size ie = 0 \<or> tx_sample_size ie = 0) \<and>
            filter transport_release (events st) = [])"
proof (cases "main_init ie")
  case (Halt c' oc' s')
  then have eq: "c' = c" "oc' = oc" "s' = st" using assms by (simp_all add: main_def)
  have "\<not> init_ok ie" using Halt main_init_ok [of ie] by auto
  then show ?thesis using main_init_Halt [OF Halt] unfolding eq by auto
next
  case (Go x s')
  then have ok: "init_ok ie" by (rule main_init_Go)
  then have s': "s' = init_state ie" using Go main_init_ok [of ie] by simp
  have rec: "streaming ie es (init_state ie) = Terminated c oc st"
    using assms Go s' by (simp add: main_def)
  have clean: "filter transport_release (events (init_state ie)) = []" by simp
  have sd: "shutdown_events (init_state ie) = shutdown_sequence"
    by (simp add: shutdown_events_def)
  from streaming_Terminated [OF rec clean] show ?thesis
    unfolding sd using ok by auto
qed

subsection \<open>Exit status, releases and cancellation\<close>

lemma push_fails_fields: "push_ret push_fails = - 1"
  by (simp add: push_fails_def)

lemma push_fails_run:
  "main bench_init [push_fails] =
     Terminated Push_error (Exit 0)
       (emit shutdown_sequence (emit [Buffer_push] (init_state bench_init)))"
proof -
  have "cycle bench_init push_fails (init_state bench_init) =
      Halt Push_error (Exit 0) (emit shutdown_sequence (emit [Buffer_push] (init_state bench_init)))"
    by (simp add: cycle_def Let_def push_fails_fields do_shutdown_eq shutdown_events_def emit_def)
  then show ?thesis
    using bench_init_fields(1) by (simp add: main_def main_init_ok [OF bench_init_ok])
qed

text \<open>
  Claim C6, as the code has it. A run that ends after cancellation, after a failed push or
  refill, after a failed attribute write or a failed buffer creation ends with \<open>exit (0)\<close>;
  a run that ends in an \<open>ASSERT\<close> ends with \<open>abort ()\<close>, and does so only when
  something of the initialisation is missing. Each way of ending has its trigger in the
  environment.
\<close>

theorem exit_status:
  assumes "main ie es = Terminated c oc st"
  shows "(oc = Exit 0 \<longleftrightarrow> c \<noteq> Assert_failed \<and> c \<noteq> Div_by_zero)
       \<and> (oc = Abort \<longleftrightarrow> c = Assert_failed)
       \<and> (c = Assert_failed \<or> c = Attr_write_error \<or> c = Buffer_create_error \<longrightarrow> \<not> init_ok ie)
       \<and> (c = Push_error \<longrightarrow> (\<exists>e\<in>set es. sint (push_ret e) < 0))
       \<and> (c = Refill_error \<longrightarrow> (\<exists>e\<in>set es. sint (refill_ret e) < 0))
       \<and> (c = Cancelled \<longrightarrow> sigint_at_init ie \<or> (\<exists>e\<in>set es. sigint e))
       \<and> (c = Div_by_zero \<longrightarrow> oc = Sigfpe \<and> (rx_sample_size ie = 0 \<or> tx_sample_size ie = 0))"
  using main_Terminated [OF assms] by (elim disjE conjE) simp_all

theorem exit_status_witness:
  "main bench_init [push_fails] =
     Terminated Push_error (Exit 0)
       (emit shutdown_sequence (emit [Buffer_push] (init_state bench_init)))
   \<and> (Exit 0 = Exit 0 \<longleftrightarrow> Push_error \<noteq> Assert_failed \<and> Push_error \<noteq> Div_by_zero)
   \<and> (\<exists>e\<in>set [push_fails]. sint (push_ret e) < 0)"
proof -
  note t = exit_status [OF push_fails_run]
  have a: "(Exit 0 = Exit 0 \<longleftrightarrow> Push_error \<noteq> Assert_failed \<and> Push_error \<noteq> Div_by_zero)"
    using t by (elim conjE)
  have b: "\<exists>e\<in>set [push_fails]. sint (push_ret e) < 0"
    using t by (elim conjE) simp
  show ?thesis using push_fails_run a b by (intro conjI)
qed

text \<open>
  Claim C6 as stated fails: when no context can be created, the \<open>ASSERT\<close> ends the run with
  \<open>abort ()\<close>.
\<close>

theorem no_context_aborts: "outcome_of (main no_context []) = Some Abort"
  by (simp add: main_def main_init_def acquire_context_def no_context_def bench_init_def
      andthen_def ASSERT_def emit_def Let_def)




lemma body_sigint [simp]: "body ie (e\<lparr>sigint := b\<rparr>) st = body ie e st"
  by (simp add: stage_defs Let_def)

lemma streaming_append:
  assumes "\<not> stop st" "\<forall>c\<in>set pre. transfer_ok c \<and> \<not> sigint c"
    "rx_sample_size ie \<noteq> 0" "tx_sample_size ie \<noteq> 0"
  shows "streaming ie (pre @ rest) st = streaming ie rest (foldl (\<lambda>s e. body ie e s) st pre)"
  using assms by (induction pre arbitrary: st) (simp_all add: cycle_Go)

lemma shutdown_events_run: "shutdown_events (run ie es) = shutdown_sequence"
  by (simp add: shutdown_events_def run_handles)

lemma streaming_stopped: "stop st \<Longrightarrow> streaming ie es st = finish st"
  by (cases es) simp_all

text \<open>
  Claim C8. When the signal arrives during an iteration whose push and refill succeed, that
  iteration runs to its end exactly as it would without the signal, no further iteration
  starts whatever the environment would offer, the files and the transform are released,
  \<open>shutdown ()\<close> runs and the process exits with status 0: the trace holds one full
  iteration for each earlier one and for the interrupted one, then the releases.
\<close>

theorem cancellation_after_cycle:
  assumes "init_ok ie" "\<not> sigint_at_init ie"
    and "rx_sample_size ie \<noteq> 0" "tx_sample_size ie \<noteq> 0"
    and "\<forall>c\<in>set pre. transfer_ok c \<and> \<not> sigint c"
    and "transfer_ok e" "sigint e"
  shows "main ie (pre @ e # post) =
           Terminated Cancelled (Exit 0)
             (emit shutdown_sequence (emit finish_events (handle_sig (run ie (pre @ [e])))))
       \<and> main ie (pre @ [e\<lparr>sigint := False\<rparr>]) = Streaming (run ie (pre @ [e]))
       \<and> events (state_of (main ie (pre @ e # post))) =
           init_events @ concat (replicate (length pre + 1) cycle_events)
             @ finish_events @ shutdown_sequence"
proof -
  let ?s = "run ie pre"
  let ?t = "handle_sig (body ie e ?s)"
  have ns: "\<not> stop (init_state ie)" using assms(2) by simp
  have "main ie (pre @ e # post) = streaming ie (e # post) ?s"
    using streaming_append [OF ns assms(5,3,4)] by (simp add: main_def main_init_ok [OF assms(1)])
  also have "\<dots> = streaming ie post ?t"
  proof -
    have "stop ?s = sigint_at_init ie" by (rule run_stop)
    with assms(2) have "\<not> stop ?s" by blast
    then show ?thesis using cycle_Go [OF assms(6,3,4), of ?s] assms(7) by simp
  qed
  also have "\<dots> = finish ?t"
    by (rule streaming_stopped) (simp add: handle_sig_def)
  also have "\<dots> = Terminated Cancelled (Exit 0) (emit shutdown_sequence (emit finish_events ?t))"
    by (simp add: finish_eq shutdown_events_run)
  finally have A: "main ie (pre @ e # post) =
      Terminated Cancelled (Exit 0)
        (emit shutdown_sequence (emit finish_events (handle_sig (run ie (pre @ [e])))))"
    by simp
  have "\<forall>c\<in>set (pre @ [e\<lparr>sigint := False\<rparr>]). transfer_ok c \<and> \<not> sigint c"
    using assms(5,6) by (simp add: transfer_ok_def)
  then have "main ie (pre @ [e\<lparr>sigint := False\<rparr>]) = Streaming (run ie (pre @ [e\<lparr>sigint := False\<rparr>]))"
    using assms(1-4) by (intro main_ok)
  then have B: "main ie (pre @ [e\<lparr>sigint := False\<rparr>]) = Streaming (run ie (pre @ [e]))"
    by simp
  have "events (run ie (pre @ [e])) =
      init_events @ concat (replicate (length (pre @ [e])) cycle_events)"
    by (rule run_events)
  then have C: "events (state_of (main ie (pre @ e # post))) =
      init_events @ concat (replicate (length pre + 1) cycle_events)
        @ finish_events @ shutdown_sequence"
    unfolding A by (simp del: foldl_append replicate.simps)
  from A B C show ?thesis by blast
qed

lemma interrupted_cycle_ok: "transfer_ok interrupted_cycle" "sigint interrupted_cycle"
  by (simp_all add: interrupted_cycle_def transfer_ok_def silent_cycle_def)

theorem cancellation_after_cycle_witness:
  "init_ok bench_init \<and> \<not> sigint_at_init bench_init
   \<and> rx_sample_size bench_init \<noteq> 0 \<and> tx_sample_size bench_init \<noteq> 0
   \<and> transfer_ok silent_cycle \<and> \<not> sigint silent_cycle
   \<and> transfer_ok interrupted_cycle \<and> sigint interrupted_cycle
   \<and> outcome_of (main bench_init ([silent_cycle] @ interrupted_cycle # [silent_cycle]))
       = Some (Exit 0)
   \<and> events (state_of (main bench_init ([silent_cycle] @ interrupted_cycle # [silent_cycle]))) =
       init_events @ concat (replicate (length [silent_cycle] + 1) cycle_events)
         @ finish_events @ shutdown_sequence"
proof -
  have h: "\<forall>c\<in>set [silent_cycle]. transfer_ok c \<and> \<not> sigint c"
    using silent_cycle_ok by simp
  note t = cancellation_after_cycle
    [OF bench_init_ok bench_init_fields h interrupted_cycle_ok, of "[silent_cycle]"]
  have "outcome_of (main bench_init ([silent_cycle] @ interrupted_cycle # [silent_cycle]))
       = Some (Exit 0)"
    using t by (simp only: outcome_of.simps)
  moreover have "events (state_of (main bench_init ([silent_cycle] @ interrupted_cycle # [silent_cycle]))) =
       init_events @ concat (replicate (length [silent_cycle] + 1) cycle_events)
         @ finish_events @ shutdown_sequence"
    using t by blast
  ultimately show ?thesis
    using bench_init_ok bench_init_fields silent_cycle_ok interrupted_cycle_ok by blast
qed

end
